theory Spec2Isabelle
  imports Main "HOL-Library.AList"
begin

section \<open>Values, messages and errors\<close>

text \<open>
  The build utilities of the icon generator work on strings, on the element tree that
  the markup parser hands over, and on plain objects used as dictionaries. A
  \<^typ>\<open>string\<close> stands for a JavaScript string whose code units are below 256.

  Arrays are dense lists, an exception is the left injection of a sum, and the depth of
  the call stack is not limited.

  \<open>Number.parseInt\<close> yields either \<open>NaN\<close> or an integer. \<open>Num i\<close> carries the
  mathematical value of the digits read; the engine stores the nearest double, and
  both zeros are \<open>Num 0\<close>.
\<close>

datatype jsnum = NaN | Num int

text \<open>
  A message is kept as the parts of the template literal that builds it, in order: text
  (literal or an interpolated string), an interpolated \<open>undefined\<close>, or an interpolated
  number. The text an engine prints is the concatenation of the parts' string forms.
\<close>

datatype part = Txt string | Undefined | Numeric jsnum

type_synonym message = "part list"

text \<open>
  The three kinds of exception the code raises. \<open>assert(value, message)\<close> takes an
  optional message: \<open>AssertionError None\<close> is the failure of an assertion whose message
  argument is \<open>undefined\<close> (the runtime then supplies a text of its own).
\<close>

datatype error = AssertionError "message option" | TypeError message | Error message

definition interpolate :: "string option \<Rightarrow> part" where
  "interpolate s = (case s of None \<Rightarrow> Undefined | Some t \<Rightarrow> Txt t)"

definition interpolate_num :: "jsnum option \<Rightarrow> part" where
  "interpolate_num x = (case x of None \<Rightarrow> Undefined | Some n \<Rightarrow> Numeric n)"

text \<open>The message argument of \<open>assert(cond, debugName)\<close>: the optional string itself.\<close>

definition as_message :: "string option \<Rightarrow> message option" where
  "as_message debugName = map_option (\<lambda>s. [Txt s]) debugName"

text \<open>\<open>xs[i]\<close> on an array: \<open>undefined\<close> beyond the end.\<close>

definition index :: "'a list \<Rightarrow> nat \<Rightarrow> 'a option" where
  "index xs i = (if i < length xs then Some (xs ! i) else None)"

section \<open>String primitives\<close>

text \<open>\<open>str.split(sep)\<close> for a separator of one character: every occurrence cuts, so
  two separators in a row give an empty token and the empty string gives one empty token.\<close>

fun split :: "char \<Rightarrow> string \<Rightarrow> string list" where
  "split sep [] = [[]]"
| "split sep (c # cs) =
     (if c = sep then [] # split sep cs
      else (case split sep cs of
              [] \<Rightarrow> [[c]]
            | t # ts \<Rightarrow> (c # t) # ts))"

text \<open>\<open>Number.parseInt(str, 10)\<close>: leading white space is skipped, one sign is read,
  then the longest run of decimal digits; no digit at all gives \<open>NaN\<close>. With radix 10
  no \<open>0x\<close> prefix is recognised.\<close>

definition StrWhiteSpaceChar :: "char \<Rightarrow> bool" where
  "StrWhiteSpaceChar c = ((of_char c :: nat) \<in> {9, 10, 11, 12, 13, 32, 160})"

definition isDigit :: "char \<Rightarrow> bool" where
  "isDigit c = (48 \<le> (of_char c :: nat) \<and> (of_char c :: nat) \<le> 57)"

definition digitsValue :: "string \<Rightarrow> int" where
  "digitsValue z = foldl (\<lambda>acc c. 10 * acc + int (of_char c - 48)) 0 z"

definition parseInt :: "string \<Rightarrow> jsnum" where
  "parseInt str =
     (let s = dropWhile StrWhiteSpaceChar str;
          neg = (case s of [] \<Rightarrow> False | c # _ \<Rightarrow> c = CHR ''-'');
          s' = (case s of [] \<Rightarrow> [] | c # cs \<Rightarrow> if c = CHR ''+'' \<or> c = CHR ''-'' then cs else s);
          z = takeWhile isDigit s'
      in if z = [] then NaN
         else Num ((if neg then - 1 else 1) * digitsValue z))"

section \<open>The parsed element tree and the abstract tree\<close>

text \<open>
  Modelled from the spec: the types \<open>Node\<close>, \<open>AbstractNode\<close>, \<open>ThemeType\<close> and
  \<open>Environment\<close> come from a typings module that is not among the sources. The spec
  gives a node the fields \<open>tagName\<close>, \<open>attrs\<close> (an ordered sequence of name/value
  pairs) and \<open>childNodes\<close>; the code also reads \<open>nodeName\<close>, the name the parser gives
  every node (for an element it is the tag name). A node that is no element has no
  \<open>tagName\<close>, hence the option. An abstract node has \<open>tag\<close>, \<open>attrs\<close> and \<open>children\<close>.
  A theme is one of the strings \<open>fill\<close>, \<open>outline\<close>, \<open>twotone\<close>; at run time any
  string can arrive, and the code has a branch for that, so a theme is a string here.
\<close>

record Attribute =
  name :: string
  "value" :: string

datatype Node =
  Node (nodeName: string) (tagName: "string option")
       (attrs: "Attribute list") (childNodes: "Node list")

text \<open>The \<open>attrs\<close> object of an abstract node: its own properties in the order of
  their creation, each name at most once.\<close>

type_synonym object = "(string \<times> string) list"

datatype AbstractNode =
  AbstractNode (tag: string) (attrs: object) (children: "AbstractNode list")

record Paths =
  SVG_DIR :: string

record Environment =
  base :: string
  paths :: Paths

section \<open>Objects as dictionaries\<close>

text \<open>
  \<open>Object.defineProperty(acc, name, { value, enumerable: true })\<close> on an object that
  starts as \<open>{}\<close>: a new name becomes an own property that is neither writable nor
  configurable. Defining the name again is accepted when the value is the same string
  (nothing changes) and raises a \<open>TypeError\<close> otherwise.
\<close>

definition redefinition :: "string \<Rightarrow> error" where
  "redefinition nm = TypeError [Txt ''Cannot redefine property: '', Txt nm]"

definition defineProperty :: "object \<Rightarrow> string \<Rightarrow> string \<Rightarrow> error + object" where
  "defineProperty acc nm v =
     (case map_of acc nm of
        None \<Rightarrow> Inr (acc @ [(nm, v)])
      | Some old \<Rightarrow>
          if old = v then Inr acc
          else Inl (redefinition nm))"

text \<open>
  \<open>acc[key] = value\<close> on an object that starts as \<open>{}\<close> and only ever receives
  string values this way: the own property is created, or overwritten in place. The key
  \<open>__proto__\<close> is the exception: the assignment reaches the accessor inherited from
  \<open>Object.prototype\<close>, whose setter ignores a value that is no object, so no property
  appears.
\<close>

definition assign :: "object \<Rightarrow> string \<Rightarrow> string \<Rightarrow> object" where
  "assign acc key v = (if key = ''__proto__'' then acc else AList.update key v acc)"

section \<open>normalizeNode and generateAbstractTree\<close>

text \<open>The reduction over \<open>node.attrs\<close>; the first failing definition ends it.\<close>

fun reduce_attrs :: "object \<Rightarrow> Attribute list \<Rightarrow> error + object" where
  "reduce_attrs acc [] = Inr acc"
| "reduce_attrs acc (a # as) =
     (case defineProperty acc (name a) (value a) of
        Inl e \<Rightarrow> Inl e
      | Inr acc' \<Rightarrow> reduce_attrs acc' as)"

text \<open>\<open>!tag\<close>: a tag name that is missing or empty.\<close>

definition no_tag :: "string option \<Rightarrow> bool" where
  "no_tag t = (case t of None \<Rightarrow> True | Some s \<Rightarrow> s = [])"

definition no_tag_error :: "string option \<Rightarrow> error" where
  "no_tag_error debugName =
     TypeError [interpolate debugName, Txt '' Element should have no no-tag node'']"

text \<open>
  \<open>normalizeNode\<close>: the tag check, then the attributes, then the children from left to
  right (\<open>normalizeNodes\<close> is the \<open>childNodes.map\<close>); the first exception leaves the
  function.
\<close>

fun normalizeNode :: "Node \<Rightarrow> string option \<Rightarrow> error + AbstractNode"
  and normalizeNodes :: "Node list \<Rightarrow> string option \<Rightarrow> error + AbstractNode list" where
  "normalizeNode (Node nn tn ats cs) debugName =
     (case (if no_tag tn then None else tn) of
        None \<Rightarrow> Inl (no_tag_error debugName)
      | Some tag' \<Rightarrow>
          (case reduce_attrs [] ats of
             Inl e \<Rightarrow> Inl e
           | Inr attrs' \<Rightarrow>
               (case normalizeNodes cs debugName of
                  Inl e \<Rightarrow> Inl e
                | Inr children' \<Rightarrow> Inr (AbstractNode tag' attrs' children'))))"
| "normalizeNodes [] debugName = Inr []"
| "normalizeNodes (c # cs) debugName =
     (case normalizeNode c debugName of
        Inl e \<Rightarrow> Inl e
      | Inr t \<Rightarrow>
          (case normalizeNodes cs debugName of
             Inl e \<Rightarrow> Inl e
           | Inr ts \<Rightarrow> Inr (t # ts)))"

text \<open>The message of the size assertion.\<close>

definition size_message :: "jsnum list \<Rightarrow> string option \<Rightarrow> message" where
  "size_message size' debugName =
     [Txt ''The size tuple should be [ width, height ], but got [ '',
      interpolate_num (index size' 0), Txt '', '', interpolate_num (index size' 1),
      Txt '' ] ['', interpolate debugName, Txt '']'']"

text \<open>The filter that selects the children counted as one-level path nodes.\<close>

definition oneLevelPathNode :: "Node \<Rightarrow> bool" where
  "oneLevelPathNode c = (nodeName c \<noteq> ''style'' \<and> length (childNodes c) = 0)"

text \<open>
  \<open>generateAbstractTree\<close>: five assertions in the order of the source, then
  \<open>normalizeNode\<close> on the same node. The node may be absent at run time, which the
  first assertion catches.
\<close>

definition generateAbstractTree :: "Node option \<Rightarrow> string option \<Rightarrow> error + AbstractNode" where
  "generateAbstractTree node debugName =
     (case node of
        None \<Rightarrow> Inl (AssertionError (as_message debugName))
      | Some n \<Rightarrow>
          if tagName n \<noteq> Some ''svg'' then Inl (AssertionError (as_message debugName))
          else
            (case find (\<lambda>a. name a = ''viewBox'') (Node.attrs n) of
               None \<Rightarrow> Inl (AssertionError (as_message debugName))
             | Some viewBox \<Rightarrow>
                 (let size' = map parseInt (drop 2 (split CHR '' '' (value viewBox)))
                  in if length size' \<noteq> 2
                     then Inl (AssertionError (Some (size_message size' debugName)))
                     else
                       (let oneLevelPathNodes = filter oneLevelPathNode (childNodes n)
                        in if \<not> 1 \<le> length oneLevelPathNodes
                           then Inl (AssertionError (as_message debugName))
                           else normalizeNode n debugName))))"

section \<open>Theme names\<close>

definition getIdentifier :: "string \<Rightarrow> string \<Rightarrow> error + string" where
  "getIdentifier identifier theme =
     (if theme = ''fill'' then Inr (identifier @ ''Fill'')
      else if theme = ''outline'' then Inr (identifier @ ''Outline'')
      else if theme = ''twotone'' then Inr (identifier @ ''TwoTone'')
      else Inl (TypeError [Txt ''Unknown theme type: '', Txt theme,
                           Txt '', identifier: '', Txt identifier]))"

definition withSuffix :: "string \<Rightarrow> string \<Rightarrow> error + string" where
  "withSuffix nm theme =
     (if theme = ''fill'' then Inr (nm @ ''-fill'')
      else if theme = ''outline'' then Inr (nm @ ''-o'')
      else if theme = ''twotone'' then Inr (nm @ ''-twotone'')
      else Inl (TypeError [Txt ''Unknown theme type: '', Txt theme,
                           Txt '', name: '', Txt nm]))"

section \<open>Rollback themes and the file probe\<close>

text \<open>
  \<open>fs.accessSync\<close> returns nothing when the path is accessible and throws otherwise:
  the file is absent, or the probe itself failed. \<open>path.resolve\<close> and the file system
  are outside the code; both are parameters.
\<close>

datatype fs_error = ENOENT | IOFailure string

type_synonym probe = "string \<Rightarrow> fs_error + unit"

text \<open>The \<open>for ... of\<close> loop over the candidate paths, with its swallowing \<open>catch\<close>.\<close>

fun first_accessible :: "probe \<Rightarrow> (string \<times> string) list \<Rightarrow> string option" where
  "first_accessible accessSync [] = None"
| "first_accessible accessSync ((theme, url) # rest) =
     (case accessSync url of
        Inr _ \<Rightarrow> Some theme
      | Inl _ \<Rightarrow> first_accessible accessSync rest)"

definition theme_paths ::
  "(string list \<Rightarrow> string) \<Rightarrow> Environment \<Rightarrow> string \<Rightarrow> string list \<Rightarrow> (string \<times> string) list" where
  "theme_paths resolve env kebabCaseName rollbackList =
     map (\<lambda>theme. (theme, resolve [SVG_DIR (paths env), theme, kebabCaseName @ ''.svg'']))
         rollbackList"

definition getRollbackTheme ::
  "(string list \<Rightarrow> string) \<Rightarrow> probe \<Rightarrow> Environment \<Rightarrow> string \<Rightarrow> string list \<Rightarrow> error + string" where
  "getRollbackTheme resolve accessSync env kebabCaseName rollbackList =
     (case first_accessible accessSync (theme_paths resolve env kebabCaseName rollbackList) of
        Some theme \<Rightarrow> Inr theme
      | None \<Rightarrow> Inl (Error [Txt ''There is no SVG of the icon: '', Txt kebabCaseName]))"

definition isAccessable :: "probe \<Rightarrow> string \<Rightarrow> bool" where
  "isAccessable accessSync url =
     (case accessSync url of Inr _ \<Rightarrow> True | Inl _ \<Rightarrow> False)"

section \<open>Names for a whole theme\<close>

text \<open>
  \<open>theseShouldBeWithTheme\<close>: the \<open>map\<close> computes every value first (an unknown theme
  throws at the first name), then the \<open>reduce\<close> assigns them to an object that starts
  empty. \<open>camelCase\<close> and \<open>upperFirst\<close> are the library's functions, taken as
  parameters. The flag is optional; an absent flag counts as false.
\<close>

fun name_entries ::
  "(string \<Rightarrow> string) \<Rightarrow> (string \<Rightarrow> string) \<Rightarrow> string list \<Rightarrow> string \<Rightarrow> bool option \<Rightarrow>
     error + (string \<times> string) list" where
  "name_entries camelCase upperFirst [] theme isKebabCase = Inr []"
| "name_entries camelCase upperFirst (basicName # rest) theme isKebabCase =
     (case (if isKebabCase = Some True then withSuffix basicName theme
            else getIdentifier (upperFirst (camelCase basicName)) theme) of
        Inl e \<Rightarrow> Inl e
      | Inr v \<Rightarrow>
          (case name_entries camelCase upperFirst rest theme isKebabCase of
             Inl e \<Rightarrow> Inl e
           | Inr kvs \<Rightarrow> Inr ((basicName, v) # kvs)))"

definition theseShouldBeWithTheme ::
  "(string \<Rightarrow> string) \<Rightarrow> (string \<Rightarrow> string) \<Rightarrow> string list \<Rightarrow> string \<Rightarrow> bool option \<Rightarrow>
     error + object" where
  "theseShouldBeWithTheme camelCase upperFirst basicNames theme isKebabCase =
     (case name_entries camelCase upperFirst basicNames theme isKebabCase of
        Inl e \<Rightarrow> Inl e
      | Inr kvs \<Rightarrow> Inr (foldl (\<lambda>acc (key, v). assign acc key v) [] kvs))"

section \<open>Notions used to state the properties\<close>

text \<open>The nodes of a tree in document order, which is the order in which
  \<open>normalizeNode\<close> visits them.\<close>

fun subtree :: "Node \<Rightarrow> Node list" where
  "subtree (Node nn tn ats cs) = Node nn tn ats cs # concat (map subtree cs)"

fun abstract_nodes :: "AbstractNode \<Rightarrow> AbstractNode list" where
  "abstract_nodes (AbstractNode t ats cs) =
     AbstractNode t ats cs # concat (map abstract_nodes cs)"

text \<open>The source attributes as name/value entries, one per attribute, in source order.\<close>

definition entries :: "Attribute list \<Rightarrow> object" where
  "entries as = map (\<lambda>a. (name a, value a)) as"

text \<open>Two attributes of one node that share a name and differ in value.\<close>

definition conflicting :: "Attribute list \<Rightarrow> bool" where
  "conflicting as = (\<exists>a \<in> set as. \<exists>b \<in> set as. name a = name b \<and> value a \<noteq> value b)"

text \<open>A node that gets through its own two steps of \<open>normalizeNode\<close>: it has a tag
  name and its attributes define no property twice with different values.\<close>

definition passes :: "Node \<Rightarrow> bool" where
  "passes m = (\<not> no_tag (tagName m) \<and> \<not> conflicting (Node.attrs m))"

text \<open>The tokens of the \<open>viewBox\<close> value after the first two, as
  \<open>generateAbstractTree\<close> computes them; \<open>None\<close> without a \<open>viewBox\<close> attribute.\<close>

definition viewBox_tail :: "Node \<Rightarrow> string list option" where
  "viewBox_tail n =
     map_option (\<lambda>viewBox. drop 2 (split CHR '' '' (value viewBox)))
       (find (\<lambda>a. name a = ''viewBox'') (Node.attrs n))"

section \<open>Attribute reduction\<close>

lemma defineProperty_cases:
  "defineProperty acc nm v =
     (if map_of acc nm = None then Inr (acc @ [(nm, v)])
      else if map_of acc nm = Some v then Inr acc
      else Inl (redefinition nm))"
  by (auto simp: defineProperty_def split: option.splits)

lemma reduce_attrs_Inr:
  "reduce_attrs acc as = Inr acc' \<Longrightarrow>
     (\<forall>a \<in> set as. map_of acc' (name a) = Some (value a)) \<and>
     (\<forall>k v. map_of acc k = Some v \<longrightarrow> map_of acc' k = Some v) \<and>
     fst ` set acc' = fst ` set acc \<union> name ` set as \<and>
     (distinct (map fst acc) \<longrightarrow> distinct (map fst acc'))"
proof (induction as arbitrary: acc)
  case Nil
  then show ?case by simp
next
  case (Cons a as)
  from Cons.prems obtain acc1 where
    d: "defineProperty acc (name a) (value a) = Inr acc1" and r: "reduce_attrs acc1 as = Inr acc'"
    by (auto split: sum.splits)
  note IH = Cons.IH [OF r]
  from d have acc1: "(map_of acc (name a) = None \<and> acc1 = acc @ [(name a, value a)]) \<or>
                     (map_of acc (name a) = Some (value a) \<and> acc1 = acc)"
    by (auto simp: defineProperty_cases split: if_splits)
  have m1: "map_of acc1 (name a) = Some (value a)"
    using acc1 by (auto simp: map_add_def)
  have m2: "\<forall>k v. map_of acc k = Some v \<longrightarrow> map_of acc1 k = Some v"
    using acc1 by (auto simp: map_add_def split: option.splits)
  have k1: "fst ` set acc1 = insert (name a) (fst ` set acc)"
    using acc1 by (auto simp: rev_image_eqI dest: map_of_SomeD)
  have d1: "distinct (map fst acc) \<longrightarrow> distinct (map fst acc1)"
    using acc1 by (auto simp: map_of_eq_None_iff)
  show ?case using IH m1 m2 k1 d1 by auto
qed

lemma reduce_attrs_Inl:
  "reduce_attrs acc as = Inl e \<Longrightarrow> \<exists>a \<in> set as. e = redefinition (name a)"
proof (induction as arbitrary: acc)
  case Nil
  then show ?case by simp
next
  case (Cons a as)
  show ?case
  proof (cases "defineProperty acc (name a) (value a)")
    case (Inl e')
    with Cons.prems have "e = e'" by simp
    with Inl have "e = redefinition (name a)"
      by (auto simp: defineProperty_cases split: if_splits)
    then show ?thesis by simp
  next
    case (Inr acc1)
    with Cons.prems have "reduce_attrs acc1 as = Inl e" by simp
    from Cons.IH [OF this] show ?thesis by auto
  qed
qed

lemma conflicting_Cons: "conflicting as \<Longrightarrow> conflicting (a # as)"
  unfolding conflicting_def by auto

lemma conflicting_head:
  "b \<in> set as \<Longrightarrow> name b = name a \<Longrightarrow> value b \<noteq> value a \<Longrightarrow> conflicting (a # as)"
  unfolding conflicting_def by auto

lemma reduce_attrs_consistent:
  "\<not> conflicting as \<Longrightarrow> \<forall>a \<in> set as. \<forall>v. map_of acc (name a) = Some v \<longrightarrow> v = value a \<Longrightarrow>
     \<exists>acc'. reduce_attrs acc as = Inr acc'"
proof (induction as arbitrary: acc)
  case Nil
  then show ?case by simp
next
  case (Cons a as)
  from Cons.prems(2) have "map_of acc (name a) = None \<or> map_of acc (name a) = Some (value a)"
    by (cases "map_of acc (name a)") auto
  then obtain acc1 where d: "defineProperty acc (name a) (value a) = Inr acc1"
    and acc1: "acc1 = acc @ [(name a, value a)] \<or> acc1 = acc"
    by (auto simp: defineProperty_cases)
  have nc: "\<not> conflicting as" using Cons.prems(1) conflicting_Cons by blast
  have "\<forall>b \<in> set as. \<forall>v. map_of acc1 (name b) = Some v \<longrightarrow> v = value b"
  proof (intro ballI allI impI)
    fix b v assume b: "b \<in> set as" and v: "map_of acc1 (name b) = Some v"
    show "v = value b"
    proof (cases "map_of acc (name b)")
      case (Some w)
      with Cons.prems(2) b have "w = value b" by simp
      moreover from Some acc1 v have "v = w" by (auto simp: map_add_def)
      ultimately show ?thesis by simp
    next
      case None
      with acc1 v have "name b = name a \<and> v = value a"
        by (auto simp: map_add_def split: if_splits)
      with Cons.prems(1) b show ?thesis using conflicting_head by metis
    qed
  qed
  from Cons.IH [OF nc this] d show ?case by simp
qed

lemma reduce_attrs_conflicting:
  assumes "conflicting as"
  shows "\<exists>a \<in> set as. reduce_attrs [] as = Inl (redefinition (name a))"
proof (cases "reduce_attrs [] as")
  case (Inl e)
  from reduce_attrs_Inl [OF this] Inl show ?thesis by auto
next
  case (Inr acc')
  from reduce_attrs_Inr [OF this]
  have "\<forall>a \<in> set as. map_of acc' (name a) = Some (value a)" by simp
  moreover from assms obtain a b where "a \<in> set as" "b \<in> set as"
    "name a = name b" "value a \<noteq> value b"
    by (auto simp: conflicting_def)
  ultimately have False by (metis option.inject)
  then show ?thesis ..
qed

lemma reduce_attrs_distinct:
  "distinct (map name as) \<Longrightarrow> name ` set as \<inter> fst ` set acc = {} \<Longrightarrow>
     reduce_attrs acc as = Inr (acc @ entries as)"
proof (induction as arbitrary: acc)
  case Nil
  then show ?case by (simp add: entries_def)
next
  case (Cons a as)
  from Cons.prems(2) have "map_of acc (name a) = None"
    by (auto simp: map_of_eq_None_iff)
  then have d: "defineProperty acc (name a) (value a) = Inr (acc @ [(name a, value a)])"
    by (simp add: defineProperty_cases)
  have "name ` set as \<inter> fst ` set (acc @ [(name a, value a)]) = {}"
    using Cons.prems by auto
  with Cons.IH [of "acc @ [(name a, value a)]"] Cons.prems(1) d
  show ?case by (simp add: entries_def)
qed

section \<open>Normalising a tree\<close>

lemma normalizeNode_unfold:
  "normalizeNode n d =
     (if no_tag (tagName n) then Inl (no_tag_error d)
      else (case reduce_attrs [] (Node.attrs n) of
              Inl e \<Rightarrow> Inl e
            | Inr attrs' \<Rightarrow>
                (case normalizeNodes (childNodes n) d of
                   Inl e \<Rightarrow> Inl e
                 | Inr children' \<Rightarrow> Inr (AbstractNode (the (tagName n)) attrs' children'))))"
  by (cases n) (auto simp: no_tag_def split: option.splits sum.splits)

lemma normalizeNode_root:
  assumes "normalizeNode n d = Inr t"
  shows "tagName n = Some (tag t)" and "tag t \<noteq> []"
    and "reduce_attrs [] (Node.attrs n) = Inr (AbstractNode.attrs t)"
    and "normalizeNodes (childNodes n) d = Inr (children t)"
  using assms
  by (auto simp: normalizeNode_unfold no_tag_def split: if_splits sum.splits option.splits)

lemma normalizeNodes_nth:
  "normalizeNodes cs d = Inr ts \<Longrightarrow>
     length ts = length cs \<and> (\<forall>i < length cs. normalizeNode (cs ! i) d = Inr (ts ! i))"
proof (induction cs arbitrary: ts)
  case Nil
  then show ?case by simp
next
  case (Cons c cs)
  from Cons.prems obtain t ts' where t: "normalizeNode c d = Inr t"
    and ts': "normalizeNodes cs d = Inr ts'" and ts: "ts = t # ts'"
    by (auto split: sum.splits)
  from Cons.IH [OF ts'] t ts show ?case
    by (auto simp: nth_Cons split: nat.splits)
qed

lemma normalize_passes:
  "(\<forall>m \<in> set (subtree n). passes m) \<longrightarrow> (\<exists>t. normalizeNode n d = Inr t)"
  "(\<forall>m \<in> set (concat (map subtree cs)). passes m) \<longrightarrow> (\<exists>ts. normalizeNodes cs d = Inr ts)"
proof (induction n d and cs d rule: normalizeNode_normalizeNodes.induct)
  case (1 nn tn ats cs debugName)
  show ?case
  proof
    assume h: "\<forall>m \<in> set (subtree (Node nn tn ats cs)). passes m"
    then have p: "passes (Node nn tn ats cs)" by simp
    then have tn: "\<not> no_tag tn" and "\<not> conflicting ats" by (simp_all add: passes_def)
    then obtain acc where acc: "reduce_attrs [] ats = Inr acc"
      using reduce_attrs_consistent [of ats "[]"] by auto
    from tn obtain tg where tg: "(if no_tag tn then None else tn) = Some tg"
      by (cases tn) (auto simp: no_tag_def)
    from h have "\<forall>m \<in> set (concat (map subtree cs)). passes m" by simp
    with "1.IH" [OF tg acc] obtain ts where "normalizeNodes cs debugName = Inr ts" by auto
    with tg acc show "\<exists>t. normalizeNode (Node nn tn ats cs) debugName = Inr t" by simp
  qed
next
  case (2 debugName)
  show ?case by simp
next
  case (3 c cs debugName)
  show ?case
  proof
    assume h: "\<forall>m \<in> set (concat (map subtree (c # cs))). passes m"
    with "3.IH"(1) obtain t where t: "normalizeNode c debugName = Inr t" by auto
    from h "3.IH"(2) [OF t] obtain ts where "normalizeNodes cs debugName = Inr ts" by auto
    with t show "\<exists>ts. normalizeNodes (c # cs) debugName = Inr ts" by simp
  qed
qed

lemma normalize_Inr:
  "\<forall>t. normalizeNode n d = Inr t \<longrightarrow>
     (\<forall>m \<in> set (subtree n). passes m) \<and> (\<forall>a \<in> set (abstract_nodes t). tag a \<noteq> [])"
  "\<forall>ts. normalizeNodes cs d = Inr ts \<longrightarrow>
     (\<forall>m \<in> set (concat (map subtree cs)). passes m) \<and>
     (\<forall>a \<in> set (concat (map abstract_nodes ts)). tag a \<noteq> [])"
proof (induction n d and cs d rule: normalizeNode_normalizeNodes.induct)
  case (1 nn tn ats cs debugName)
  show ?case
  proof (intro allI impI)
    fix t assume r: "normalizeNode (Node nn tn ats cs) debugName = Inr t"
    then obtain tg acc ts where tg: "(if no_tag tn then None else tn) = Some tg"
      and acc: "reduce_attrs [] ats = Inr acc" and ts: "normalizeNodes cs debugName = Inr ts"
      and t: "t = AbstractNode tg acc ts"
      by (auto split: option.splits sum.splits)
    from tg have tn: "\<not> no_tag tn" and tg_ne: "tg \<noteq> []"
      by (auto simp: no_tag_def split: if_splits option.splits)
    have "\<not> conflicting ats"
    proof
      assume "conflicting ats"
      from reduce_attrs_conflicting [OF this] acc show False by auto
    qed
    with tn have "passes (Node nn tn ats cs)" by (simp add: passes_def)
    with "1.IH" [OF tg acc] ts t tg_ne
    show "(\<forall>m \<in> set (subtree (Node nn tn ats cs)). passes m) \<and>
          (\<forall>a \<in> set (abstract_nodes t). tag a \<noteq> [])"
      by auto
  qed
next
  case (2 debugName)
  show ?case by simp
next
  case (3 c cs debugName)
  show ?case
  proof (intro allI impI)
    fix ts assume r: "normalizeNodes (c # cs) debugName = Inr ts"
    then obtain t ts' where t: "normalizeNode c debugName = Inr t"
      and ts': "normalizeNodes cs debugName = Inr ts'" and ts: "ts = t # ts'"
      by (auto split: sum.splits)
    from "3.IH"(1) t "3.IH"(2) [OF t] ts' ts
    show "(\<forall>m \<in> set (concat (map subtree (c # cs))). passes m) \<and>
          (\<forall>a \<in> set (concat (map abstract_nodes ts)). tag a \<noteq> [])"
      by auto
  qed
qed


lemma normalize_reached_no_tag:
  "\<forall>before b after. subtree n = before @ b # after \<and> (\<forall>m \<in> set before. passes m) \<and>
       no_tag (tagName b) \<longrightarrow> normalizeNode n d = Inl (no_tag_error d)"
  "\<forall>before b after. concat (map subtree cs) = before @ b # after \<and>
       (\<forall>m \<in> set before. passes m) \<and> no_tag (tagName b) \<longrightarrow>
       normalizeNodes cs d = Inl (no_tag_error d)"
proof (induction n d and cs d rule: normalizeNode_normalizeNodes.induct)
  case (1 nn tn ats cs debugName)
  show ?case
  proof (intro allI impI, elim conjE)
    fix before b after
    assume eq: "subtree (Node nn tn ats cs) = before @ b # after"
      and ok: "\<forall>m \<in> set before. passes m" and b: "no_tag (tagName b)"
    show "normalizeNode (Node nn tn ats cs) debugName = Inl (no_tag_error debugName)"
    proof (cases before)
      case Nil
      with eq have "b = Node nn tn ats cs" by simp
      with b have "no_tag tn" by simp
      then show ?thesis by simp
    next
      case (Cons x before')
      with eq have x: "x = Node nn tn ats cs"
        and rest: "concat (map subtree cs) = before' @ b # after" by simp_all
      from ok Cons x have "passes (Node nn tn ats cs)" by simp
      then have tn: "\<not> no_tag tn" and "\<not> conflicting ats" by (simp_all add: passes_def)
      then obtain acc where acc: "reduce_attrs [] ats = Inr acc"
        using reduce_attrs_consistent [of ats "[]"] by auto
      from tn obtain tg where tg: "(if no_tag tn then None else tn) = Some tg"
        by (cases tn) (auto simp: no_tag_def)
      from ok Cons have "\<forall>m \<in> set before'. passes m" by simp
      with "1.IH" [OF tg acc] rest b
      have "normalizeNodes cs debugName = Inl (no_tag_error debugName)" by blast
      with tg acc show ?thesis by simp
    qed
  qed
next
  case (2 debugName)
  show ?case by simp
next
  case (3 c cs debugName)
  show ?case
  proof (intro allI impI, elim conjE)
    fix before b after
    assume eq: "concat (map subtree (c # cs)) = before @ b # after"
      and ok: "\<forall>m \<in> set before. passes m" and b: "no_tag (tagName b)"
    from eq have "subtree c @ concat (map subtree cs) = before @ b # after" by simp
    then obtain us where
      "(subtree c = before @ us \<and> us @ concat (map subtree cs) = b # after) \<or>
       (subtree c @ us = before \<and> concat (map subtree cs) = us @ b # after)"
      by (auto simp: append_eq_append_conv2)
    then consider
      (inside) us' where "subtree c = before @ b # us'"
    | (later) us where "before = subtree c @ us" "concat (map subtree cs) = us @ b # after"
      by (cases us) auto
    then show "normalizeNodes (c # cs) debugName = Inl (no_tag_error debugName)"
    proof cases
      case inside
      with "3.IH"(1) ok b
      have "normalizeNode c debugName = Inl (no_tag_error debugName)" by blast
      then show ?thesis by simp
    next
      case later
      with ok have "\<forall>m \<in> set (subtree c). passes m" and us: "\<forall>m \<in> set us. passes m"
        by simp_all
      with normalize_passes(1) [of c debugName]
      obtain t where t: "normalizeNode c debugName = Inr t" by auto
      from "3.IH"(2) [OF t] later(2) us b
      have "normalizeNodes cs debugName = Inl (no_tag_error debugName)" by blast
      with t show ?thesis by simp
    qed
  qed
qed

section \<open>The assertions of generateAbstractTree\<close>

lemma one_filtered: "(Suc 0 \<le> length (filter P xs)) = (\<exists>x \<in> set xs. P x)"
  by (induction xs) auto

lemma generateAbstractTree_svg:
  assumes "tagName root = Some ''svg''"
  shows "generateAbstractTree (Some root) d =
     (case viewBox_tail root of
        None \<Rightarrow> Inl (AssertionError (as_message d))
      | Some tail \<Rightarrow>
          if length tail \<noteq> 2
          then Inl (AssertionError (Some (size_message (map parseInt tail) d)))
          else if \<exists>c \<in> set (childNodes root). oneLevelPathNode c
               then normalizeNode root d
               else Inl (AssertionError (as_message d)))"
  using assms
  by (simp add: generateAbstractTree_def viewBox_tail_def Let_def one_filtered
           split: option.splits)

lemma generateAbstractTree_Inr:
  "generateAbstractTree node d = Inr t \<Longrightarrow>
     \<exists>n. node = Some n \<and> normalizeNode n d = Inr t"
  by (auto simp: generateAbstractTree_def Let_def split: option.splits if_splits)

lemma distinct_not_conflicting: "distinct (map name as) \<Longrightarrow> \<not> conflicting as"
  by (auto simp: conflicting_def distinct_map inj_on_def)

lemma normalize_Inl:
  "\<forall>e. normalizeNode n d = Inl e \<longrightarrow>
     e = no_tag_error d \<or>
     (\<exists>m \<in> set (subtree n). conflicting (Node.attrs m) \<and>
        (\<exists>a \<in> set (Node.attrs m). e = redefinition (name a)))"
  "\<forall>e. normalizeNodes cs d = Inl e \<longrightarrow>
     e = no_tag_error d \<or>
     (\<exists>m \<in> set (concat (map subtree cs)). conflicting (Node.attrs m) \<and>
        (\<exists>a \<in> set (Node.attrs m). e = redefinition (name a)))"
proof (induction n d and cs d rule: normalizeNode_normalizeNodes.induct)
  case (1 nn tn ats cs debugName)
  show ?case
  proof (intro allI impI)
    fix e assume r: "normalizeNode (Node nn tn ats cs) debugName = Inl e"
    show "e = no_tag_error debugName \<or>
      (\<exists>m \<in> set (subtree (Node nn tn ats cs)). conflicting (Node.attrs m) \<and>
        (\<exists>a \<in> set (Node.attrs m). e = redefinition (name a)))"
    proof (cases "if no_tag tn then None else tn")
      case None
      with r show ?thesis by simp
    next
      case (Some tg)
      show ?thesis
      proof (cases "reduce_attrs [] ats")
        case (Inl e')
        with Some r have e: "e = e'" by simp
        from reduce_attrs_Inl [OF Inl] e obtain a where a: "a \<in> set ats" "e = redefinition (name a)"
          by auto
        have "conflicting ats"
        proof (rule ccontr)
          assume "\<not> conflicting ats"
          from reduce_attrs_consistent [OF this, of "[]"] Inl show False by auto
        qed
        with a show ?thesis by auto
      next
        case (Inr acc)
        with Some r have "normalizeNodes cs debugName = Inl e" by (auto split: sum.splits)
        with "1.IH" [OF Some Inr] show ?thesis by auto
      qed
    qed
  qed
next
  case (2 debugName)
  show ?case by simp
next
  case (3 c cs debugName)
  show ?case
  proof (intro allI impI)
    fix e assume r: "normalizeNodes (c # cs) debugName = Inl e"
    show "e = no_tag_error debugName \<or>
      (\<exists>m \<in> set (concat (map subtree (c # cs))). conflicting (Node.attrs m) \<and>
        (\<exists>a \<in> set (Node.attrs m). e = redefinition (name a)))"
    proof (cases "normalizeNode c debugName")
      case (Inl e')
      with r have "e = e'" by simp
      with Inl "3.IH"(1) show ?thesis by auto
    next
      case (Inr t)
      with r have "normalizeNodes cs debugName = Inl e" by (auto split: sum.splits)
      with "3.IH"(2) [OF Inr] show ?thesis by auto
    qed
  qed
qed

section \<open>The probe loop\<close>

lemma first_accessible_agree:
  "(\<And>url. isl (p1 url) = isl (p2 url)) \<Longrightarrow> first_accessible p1 ps = first_accessible p2 ps"
proof (induction ps)
  case Nil
  show ?case by simp
next
  case (Cons a ps)
  obtain theme url where a: "a = (theme, url)" by (cases a)
  have agree: "isl (p1 url) = isl (p2 url)" by (rule Cons.prems)
  have IH: "first_accessible p1 ps = first_accessible p2 ps"
    by (rule Cons.IH) (rule Cons.prems)
  show ?case
  proof (cases "p1 url")
    case (Inl e)
    with agree obtain e' where "p2 url = Inl e'" by (cases "p2 url") auto
    with Inl a IH show ?thesis by simp
  next
    case (Inr u)
    with agree obtain u' where "p2 url = Inr u'" by (cases "p2 url") auto
    with Inr a show ?thesis by simp
  qed
qed

lemma first_accessible_first:
  "\<forall>p \<in> set xs. isl (acc (snd p)) \<Longrightarrow> \<not> isl (acc url) \<Longrightarrow>
   first_accessible acc (xs @ (theme, url) # ys) = Some theme"
  by (induction xs) (auto split: sum.splits)

lemma first_accessible_none:
  "\<forall>p \<in> set xs. isl (acc (snd p)) \<Longrightarrow> first_accessible acc xs = None"
  by (induction xs) (auto split: sum.splits)

section \<open>Errors reach the caller\<close>

lemma subtree_child: "c \<in> set (childNodes n) \<Longrightarrow> set (subtree c) \<subseteq> set (subtree n)"
  by (cases n) auto

lemma child_error_propagates:
  assumes "c \<in> set (childNodes n)" and "isl (normalizeNode c d)"
  shows "isl (normalizeNode n d)"
proof (rule ccontr)
  assume "\<not> isl (normalizeNode n d)"
  then obtain t where "normalizeNode n d = Inr t" by (cases "normalizeNode n d") auto
  with normalize_Inr(1) [of n d] have "\<forall>m \<in> set (subtree n). passes m" by simp
  with subtree_child [OF assms(1)] have "\<forall>m \<in> set (subtree c). passes m" by auto
  with normalize_passes(1) [of c d] assms(2) show False by auto
qed

lemma name_entries_unknown_theme:
  "theme \<notin> {''fill'', ''outline'', ''twotone''} \<Longrightarrow> basicNames \<noteq> [] \<Longrightarrow>
     isl (name_entries camelCase upperFirst basicNames theme isKebabCase)"
  by (cases basicNames) (auto simp: withSuffix_def getIdentifier_def)

section \<open>The properties\<close>

subsection \<open>Theme suffixes\<close>

text \<open>
  C5. For every base identifier and base name, \<open>getIdentifier\<close> appends \<open>Fill\<close>,
  \<open>Outline\<close> or \<open>TwoTone\<close> and \<open>withSuffix\<close> appends \<open>-fill\<close>, \<open>-o\<close> or
  \<open>-twotone\<close> for the themes \<open>fill\<close>, \<open>outline\<close>, \<open>twotone\<close>. For any other theme
  each of them throws a \<open>TypeError\<close> whose message names the theme and the given
  identifier or name.
\<close>

theorem theme_suffixes:
  "getIdentifier identifier ''fill'' = Inr (identifier @ ''Fill'') \<and>
   getIdentifier identifier ''outline'' = Inr (identifier @ ''Outline'') \<and>
   getIdentifier identifier ''twotone'' = Inr (identifier @ ''TwoTone'') \<and>
   withSuffix nm ''fill'' = Inr (nm @ ''-fill'') \<and>
   withSuffix nm ''outline'' = Inr (nm @ ''-o'') \<and>
   withSuffix nm ''twotone'' = Inr (nm @ ''-twotone'') \<and>
   (theme \<notin> {''fill'', ''outline'', ''twotone''} \<longrightarrow>
      getIdentifier identifier theme =
        Inl (TypeError [Txt ''Unknown theme type: '', Txt theme,
                        Txt '', identifier: '', Txt identifier]) \<and>
      withSuffix nm theme =
        Inl (TypeError [Txt ''Unknown theme type: '', Txt theme,
                        Txt '', name: '', Txt nm]))"
  by (simp add: getIdentifier_def withSuffix_def)

theorem theme_suffixes_witness:
  "''bogus'' \<notin> {''fill'', ''outline'', ''twotone''} \<and>
   getIdentifier ''Close'' ''bogus'' =
     Inl (TypeError [Txt ''Unknown theme type: '', Txt ''bogus'',
                     Txt '', identifier: '', Txt ''Close'']) \<and>
   withSuffix ''close'' ''bogus'' =
     Inl (TypeError [Txt ''Unknown theme type: '', Txt ''bogus'',
                     Txt '', name: '', Txt ''close'']) \<and>
   getIdentifier ''Close'' ''twotone'' = Inr ''CloseTwoTone'' \<and>
   withSuffix ''close'' ''outline'' = Inr ''close-o''"
  using theme_suffixes [of "''Close''" "''close''" "''bogus''"] by simp

subsection \<open>Rollback themes\<close>

text \<open>
  C2, as the code has it. \<open>getRollbackTheme\<close> probes one path per candidate theme, in
  list order, and returns the first theme whose probe succeeds: every theme before it
  failed its probe, whatever holds for the themes after it. When no candidate's probe
  succeeds it throws an \<open>Error\<close> whose message names the icon, and only the icon: the
  candidate themes are not part of it.
\<close>

theorem rollback_first_match:
  "(rollbackList = before @ theme # after \<and>
    (\<forall>t \<in> set before.
        isl (accessSync (resolve [SVG_DIR (paths env), t, kebabCaseName @ ''.svg'']))) \<and>
    \<not> isl (accessSync (resolve [SVG_DIR (paths env), theme, kebabCaseName @ ''.svg'']))
    \<longrightarrow> getRollbackTheme resolve accessSync env kebabCaseName rollbackList = Inr theme) \<and>
   ((\<forall>t \<in> set rollbackList.
        isl (accessSync (resolve [SVG_DIR (paths env), t, kebabCaseName @ ''.svg''])))
    \<longrightarrow> getRollbackTheme resolve accessSync env kebabCaseName rollbackList =
          Inl (Error [Txt ''There is no SVG of the icon: '', Txt kebabCaseName]))"
proof (intro conjI impI)
  assume h: "rollbackList = before @ theme # after \<and>
    (\<forall>t \<in> set before.
        isl (accessSync (resolve [SVG_DIR (paths env), t, kebabCaseName @ ''.svg'']))) \<and>
    \<not> isl (accessSync (resolve [SVG_DIR (paths env), theme, kebabCaseName @ ''.svg'']))"
  let ?u = "\<lambda>t. resolve [SVG_DIR (paths env), t, kebabCaseName @ ''.svg'']"
  have "theme_paths resolve env kebabCaseName rollbackList =
          map (\<lambda>t. (t, ?u t)) before @ (theme, ?u theme) # map (\<lambda>t. (t, ?u t)) after"
    using h by (simp add: theme_paths_def)
  moreover have "\<forall>p \<in> set (map (\<lambda>t. (t, ?u t)) before). isl (accessSync (snd p))"
    using h by simp
  ultimately have "first_accessible accessSync (theme_paths resolve env kebabCaseName rollbackList)
                     = Some theme"
    using h first_accessible_first by simp
  then show "getRollbackTheme resolve accessSync env kebabCaseName rollbackList = Inr theme"
    by (simp add: getRollbackTheme_def)
next
  assume h: "\<forall>t \<in> set rollbackList.
        isl (accessSync (resolve [SVG_DIR (paths env), t, kebabCaseName @ ''.svg'']))"
  then have "\<forall>p \<in> set (theme_paths resolve env kebabCaseName rollbackList).
               isl (accessSync (snd p))"
    by (simp add: theme_paths_def)
  then have "first_accessible accessSync (theme_paths resolve env kebabCaseName rollbackList) = None"
    by (rule first_accessible_none)
  then show "getRollbackTheme resolve accessSync env kebabCaseName rollbackList =
          Inl (Error [Txt ''There is no SVG of the icon: '', Txt kebabCaseName])"
    by (simp add: getRollbackTheme_def)
qed

text \<open>Only the outline file exists, and then also the fill file: \<open>outline\<close> is the
  answer both times. With no file at all the error names the icon.\<close>

theorem rollback_first_match_witness:
  "getRollbackTheme (\<lambda>parts. concat (map ((@) ''/'') parts))
     (\<lambda>url. if url = ''/svg/outline/close.svg'' \<or> url = ''/svg/fill/close.svg''
            then Inr () else Inl ENOENT)
     \<lparr>base = ''/'', paths = \<lparr>SVG_DIR = ''svg''\<rparr>\<rparr> ''close''
     [''twotone'', ''outline'', ''fill''] = Inr ''outline'' \<and>
   getRollbackTheme (\<lambda>parts. concat (map ((@) ''/'') parts)) (\<lambda>url. Inl ENOENT)
     \<lparr>base = ''/'', paths = \<lparr>SVG_DIR = ''svg''\<rparr>\<rparr> ''close''
     [''twotone'', ''outline'', ''fill''] =
       Inl (Error [Txt ''There is no SVG of the icon: '', Txt ''close''])"
  using
    rollback_first_match [where rollbackList = "[''twotone'', ''outline'', ''fill'']"
      and before = "[''twotone'']" and theme = "''outline''" and after = "[''fill'']"
      and resolve = "\<lambda>parts. concat (map ((@) ''/'') parts)"
      and accessSync = "\<lambda>url. if url = ''/svg/outline/close.svg'' \<or> url = ''/svg/fill/close.svg''
            then Inr () else Inl ENOENT"
      and env = "\<lparr>base = ''/'', paths = \<lparr>SVG_DIR = ''svg''\<rparr>\<rparr>" and kebabCaseName = "''close''"]
    rollback_first_match [where rollbackList = "[''twotone'', ''outline'', ''fill'']"
      and resolve = "\<lambda>parts. concat (map ((@) ''/'') parts)"
      and accessSync = "\<lambda>url. Inl ENOENT"
      and env = "\<lparr>base = ''/'', paths = \<lparr>SVG_DIR = ''svg''\<rparr>\<rparr>" and kebabCaseName = "''close''"]
  by simp

text \<open>The error of an exhausted rollback is the same for two different candidate
  lists: it does not tell which themes were tried.\<close>

theorem rollback_error_omits_themes:
  "getRollbackTheme (\<lambda>parts. concat (map ((@) ''/'') parts)) (\<lambda>url. Inl ENOENT)
     \<lparr>base = ''/'', paths = \<lparr>SVG_DIR = ''svg''\<rparr>\<rparr> ''close'' [''twotone'', ''outline'', ''fill''] =
     Inl (Error [Txt ''There is no SVG of the icon: '', Txt ''close'']) \<and>
   getRollbackTheme (\<lambda>parts. concat (map ((@) ''/'') parts)) (\<lambda>url. Inl ENOENT)
     \<lparr>base = ''/'', paths = \<lparr>SVG_DIR = ''svg''\<rparr>\<rparr> ''close'' [''fill''] =
     Inl (Error [Txt ''There is no SVG of the icon: '', Txt ''close''])"
  by (simp add: getRollbackTheme_def theme_paths_def)

subsection \<open>The probe's failures\<close>

text \<open>
  C8. Two probes that succeed on the same paths, and so differ only in how they fail
  (the file is absent, or the probe itself broke), give \<open>getRollbackTheme\<close> the same
  outcome, the returned theme or the error, and give \<open>isAccessable\<close> the same answer.
  No other error is swallowed: \<open>generateAbstractTree\<close> hands on whatever
  \<open>normalizeNode\<close> does once its assertions hold, a child's error is its parent's
  error, and an unknown theme fails \<open>theseShouldBeWithTheme\<close> as soon as there is a
  name to derive.
\<close>

theorem probe_failures_coalesce:
  "((\<forall>url. isl (p1 url) = isl (p2 url)) \<longrightarrow>
      getRollbackTheme resolve p1 env kebabCaseName rollbackList =
        getRollbackTheme resolve p2 env kebabCaseName rollbackList \<and>
      isAccessable p1 u = isAccessable p2 u) \<and>
   (tagName n = Some ''svg'' \<and> (\<exists>tail. viewBox_tail n = Some tail \<and> length tail = 2) \<and>
      (\<exists>c \<in> set (childNodes n). oneLevelPathNode c) \<longrightarrow>
      generateAbstractTree (Some n) d = normalizeNode n d) \<and>
   (c \<in> set (childNodes n) \<and> isl (normalizeNode c d) \<longrightarrow> isl (normalizeNode n d)) \<and>
   (theme \<notin> {''fill'', ''outline'', ''twotone''} \<and> basicNames \<noteq> [] \<longrightarrow>
      isl (theseShouldBeWithTheme camelCase upperFirst basicNames theme isKebabCase))"
proof (intro conjI impI)
  assume h: "\<forall>url. isl (p1 url) = isl (p2 url)"
  then have "first_accessible p1 (theme_paths resolve env kebabCaseName rollbackList) =
             first_accessible p2 (theme_paths resolve env kebabCaseName rollbackList)"
    by (intro first_accessible_agree) simp
  then show "getRollbackTheme resolve p1 env kebabCaseName rollbackList =
       getRollbackTheme resolve p2 env kebabCaseName rollbackList"
    by (simp add: getRollbackTheme_def)
  from h have "isl (p1 u) = isl (p2 u)" by simp
  then show "isAccessable p1 u = isAccessable p2 u"
    by (cases "p1 u"; cases "p2 u") (simp_all add: isAccessable_def)
next
  assume "tagName n = Some ''svg'' \<and> (\<exists>tail. viewBox_tail n = Some tail \<and> length tail = 2) \<and>
      (\<exists>c \<in> set (childNodes n). oneLevelPathNode c)"
  then show "generateAbstractTree (Some n) d = normalizeNode n d"
    by (auto simp: generateAbstractTree_svg)
next
  assume "c \<in> set (childNodes n) \<and> isl (normalizeNode c d)"
  then show "isl (normalizeNode n d)" using child_error_propagates by blast
next
  assume "theme \<notin> {''fill'', ''outline'', ''twotone''} \<and> basicNames \<noteq> []"
  then have "isl (name_entries camelCase upperFirst basicNames theme isKebabCase)"
    using name_entries_unknown_theme by blast
  then show "isl (theseShouldBeWithTheme camelCase upperFirst basicNames theme isKebabCase)"
    by (auto simp: theseShouldBeWithTheme_def split: sum.splits)
qed

text \<open>A tree whose outline file cannot be read (the probe breaks) against one where
  it is absent: the fill theme is chosen both times. A child without a tag name makes the
  whole tree fail, and an unknown theme makes the naming fail.\<close>

theorem probe_failures_coalesce_witness:
  "getRollbackTheme (\<lambda>parts. concat (map ((@) ''/'') parts))
     (\<lambda>url. if url = ''/svg/fill/close.svg'' then Inr ()
            else if url = ''/svg/outline/close.svg'' then Inl (IOFailure ''EACCES'')
            else Inl ENOENT)
     \<lparr>base = ''/'', paths = \<lparr>SVG_DIR = ''svg''\<rparr>\<rparr> ''close'' [''outline'', ''fill''] =
   getRollbackTheme (\<lambda>parts. concat (map ((@) ''/'') parts))
     (\<lambda>url. if url = ''/svg/fill/close.svg'' then Inr () else Inl ENOENT)
     \<lparr>base = ''/'', paths = \<lparr>SVG_DIR = ''svg''\<rparr>\<rparr> ''close'' [''outline'', ''fill''] \<and>
   isAccessable
     (\<lambda>url. if url = ''/svg/fill/close.svg'' then Inr ()
            else if url = ''/svg/outline/close.svg'' then Inl (IOFailure ''EACCES'')
            else Inl ENOENT) ''/svg/outline/close.svg'' =
   isAccessable
     (\<lambda>url. if url = ''/svg/fill/close.svg'' then Inr () else Inl ENOENT)
     ''/svg/outline/close.svg'' \<and>
   generateAbstractTree
     (Some (Node ''svg'' (Some ''svg'') [\<lparr>name = ''viewBox'', value = ''0 0 1024 1024''\<rparr>]
        [Node ''path'' (Some ''path'') [] [], Node ''#comment'' None [] []])) (Some ''close'') =
   normalizeNode
     (Node ''svg'' (Some ''svg'') [\<lparr>name = ''viewBox'', value = ''0 0 1024 1024''\<rparr>]
        [Node ''path'' (Some ''path'') [] [], Node ''#comment'' None [] []]) (Some ''close'') \<and>
   isl (normalizeNode
     (Node ''svg'' (Some ''svg'') [\<lparr>name = ''viewBox'', value = ''0 0 1024 1024''\<rparr>]
        [Node ''path'' (Some ''path'') [] [], Node ''#comment'' None [] []]) (Some ''close'')) \<and>
   isl (theseShouldBeWithTheme id id [''close''] ''bogus'' None)"
proof -
  let ?resolve = "\<lambda>parts. concat (map ((@) ''/'') parts)"
  let ?p1 = "\<lambda>url. if url = ''/svg/fill/close.svg'' then Inr ()
            else if url = ''/svg/outline/close.svg'' then Inl (IOFailure ''EACCES'')
            else Inl ENOENT"
  let ?p2 = "\<lambda>url. if url = ''/svg/fill/close.svg'' then Inr () else Inl ENOENT"
  let ?c = "Node ''#comment'' None [] []"
  let ?n = "Node ''svg'' (Some ''svg'') [\<lparr>name = ''viewBox'', value = ''0 0 1024 1024''\<rparr>]
        [Node ''path'' (Some ''path'') [] [], ?c]"
  have agree: "\<forall>url. isl (?p1 url) = isl (?p2 url)" by simp
  have tail: "\<exists>tail. viewBox_tail ?n = Some tail \<and> length tail = 2"
    by (simp add: viewBox_tail_def)
  have leaf: "\<exists>c \<in> set (childNodes ?n). oneLevelPathNode c"
    by (simp add: oneLevelPathNode_def)
  have child: "?c \<in> set (childNodes ?n) \<and> isl (normalizeNode ?c (Some ''close''))"
    by (simp add: no_tag_def)
  have bogus: "''bogus'' \<notin> {''fill'', ''outline'', ''twotone''} \<and> [''close''] \<noteq> []"
    by simp
  have svg: "tagName ?n = Some ''svg''" by simp
  note T = probe_failures_coalesce [where ?p1.0 = ?p1 and ?p2.0 = ?p2 and resolve = ?resolve
      and env = "\<lparr>base = ''/'', paths = \<lparr>SVG_DIR = ''svg''\<rparr>\<rparr>" and kebabCaseName = "''close''"
      and rollbackList = "[''outline'', ''fill'']" and u = "''/svg/outline/close.svg''"
      and n = ?n and c = ?c and d = "Some ''close''" and theme = "''bogus''"
      and basicNames = "[''close'']" and camelCase = id and upperFirst = id
      and isKebabCase = None]
  note probes = mp [OF T [THEN conjunct1] agree]
  note tree = mp [OF T [THEN conjunct2, THEN conjunct1] conjI [OF svg conjI [OF tail leaf]]]
  note parent = mp [OF T [THEN conjunct2, THEN conjunct2, THEN conjunct1] child]
  note naming = mp [OF T [THEN conjunct2, THEN conjunct2, THEN conjunct2] bogus]
  from probes tree parent naming show ?thesis by (intro conjI) (elim conjE, assumption)+
qed

subsection \<open>generateAbstractTree returns what normalizeNode returns\<close>

text \<open>
  C10. Whenever \<open>generateAbstractTree\<close> returns a tree, it was given a node, and the
  tree is exactly what \<open>normalizeNode\<close> returns for that node and the same debug label:
  the assertions before it only decide whether the call is reached.
\<close>

theorem generateAbstractTree_refines_normalizeNode:
  "generateAbstractTree node debugName = Inr t \<Longrightarrow>
     \<exists>n. node = Some n \<and> normalizeNode n debugName = Inr t"
  by (rule generateAbstractTree_Inr)

theorem generateAbstractTree_refines_normalizeNode_witness:
  "generateAbstractTree
     (Some (Node ''svg'' (Some ''svg'') [\<lparr>name = ''viewBox'', value = ''0 0 1024 1024''\<rparr>]
        [Node ''path'' (Some ''path'') [\<lparr>name = ''d'', value = ''M0 0''\<rparr>] []]))
     (Some ''close'') =
     Inr (AbstractNode ''svg'' [(''viewBox'', ''0 0 1024 1024'')]
            [AbstractNode ''path'' [(''d'', ''M0 0'')] []]) \<and>
   normalizeNode
     (Node ''svg'' (Some ''svg'') [\<lparr>name = ''viewBox'', value = ''0 0 1024 1024''\<rparr>]
        [Node ''path'' (Some ''path'') [\<lparr>name = ''d'', value = ''M0 0''\<rparr>] []])
     (Some ''close'') =
     Inr (AbstractNode ''svg'' [(''viewBox'', ''0 0 1024 1024'')]
            [AbstractNode ''path'' [(''d'', ''M0 0'')] []])"
proof -
  have r: "generateAbstractTree
     (Some (Node ''svg'' (Some ''svg'') [\<lparr>name = ''viewBox'', value = ''0 0 1024 1024''\<rparr>]
        [Node ''path'' (Some ''path'') [\<lparr>name = ''d'', value = ''M0 0''\<rparr>] []]))
     (Some ''close'') =
     Inr (AbstractNode ''svg'' [(''viewBox'', ''0 0 1024 1024'')]
            [AbstractNode ''path'' [(''d'', ''M0 0'')] []])"
    by (simp add: generateAbstractTree_def parseInt_def oneLevelPathNode_def
          defineProperty_def no_tag_def)
  from generateAbstractTree_refines_normalizeNode [OF r] r show ?thesis by simp
qed

subsection \<open>The viewBox assertions\<close>

text \<open>
  C1, as the code has it. For a node whose \<open>tagName\<close> is \<open>svg\<close>,
  \<open>generateAbstractTree\<close> throws an \<open>AssertionError\<close> with the debug label as its
  message when there is no \<open>viewBox\<close> attribute, and an \<open>AssertionError\<close> whose message
  names the first two parsed values and the debug label when the tail of the \<open>viewBox\<close>
  value (the tokens after the first two, split on single spaces) does not have exactly
  two tokens. A tail of exactly two tokens passes this check whether or not the tokens
  parse as integers: only the number of tokens is tested, and the outcome is then that of
  the one-level path assertion and of \<open>normalizeNode\<close>.
\<close>

theorem viewBox_size_assertion:
  "tagName root = Some ''svg'' \<Longrightarrow>
   (viewBox_tail root = None \<longrightarrow>
      generateAbstractTree (Some root) d = Inl (AssertionError (as_message d))) \<and>
   (\<forall>tail. viewBox_tail root = Some tail \<and> length tail \<noteq> 2 \<longrightarrow>
      generateAbstractTree (Some root) d =
        Inl (AssertionError (Some (size_message (map parseInt tail) d)))) \<and>
   (\<forall>tail. viewBox_tail root = Some tail \<and> length tail = 2 \<longrightarrow>
      generateAbstractTree (Some root) d =
        (if \<exists>c \<in> set (childNodes root). oneLevelPathNode c
         then normalizeNode root d
         else Inl (AssertionError (as_message d))))"
  by (simp add: generateAbstractTree_svg)

text \<open>No \<open>viewBox\<close>; a tail of one token; a tail of two tokens.\<close>

theorem viewBox_size_assertion_witness:
  "generateAbstractTree
     (Some (Node ''svg'' (Some ''svg'') [] [Node ''path'' (Some ''path'') [] []]))
     (Some ''close'') = Inl (AssertionError (Some [Txt ''close''])) \<and>
   generateAbstractTree
     (Some (Node ''svg'' (Some ''svg'') [\<lparr>name = ''viewBox'', value = ''0 0 1024''\<rparr>]
        [Node ''path'' (Some ''path'') [] []]))
     (Some ''close'') =
     Inl (AssertionError (Some
       [Txt ''The size tuple should be [ width, height ], but got [ '', Numeric (Num 1024),
        Txt '', '', Undefined, Txt '' ] ['', Txt ''close'', Txt '']''])) \<and>
   generateAbstractTree
     (Some (Node ''svg'' (Some ''svg'') [\<lparr>name = ''viewBox'', value = ''0 0 1024 1024''\<rparr>]
        [Node ''path'' (Some ''path'') [] []]))
     (Some ''close'') =
     Inr (AbstractNode ''svg'' [(''viewBox'', ''0 0 1024 1024'')] [AbstractNode ''path'' [] []])"
proof -
  let ?path = "Node ''path'' (Some ''path'') [] []"
  let ?r0 = "Node ''svg'' (Some ''svg'') [] [?path]"
  let ?r1 = "Node ''svg'' (Some ''svg'') [\<lparr>name = ''viewBox'', value = ''0 0 1024''\<rparr>] [?path]"
  let ?r2 = "Node ''svg'' (Some ''svg'') [\<lparr>name = ''viewBox'', value = ''0 0 1024 1024''\<rparr>] [?path]"
  have svg: "tagName ?r0 = Some ''svg''" "tagName ?r1 = Some ''svg''" "tagName ?r2 = Some ''svg''"
    by simp_all
  have t0: "viewBox_tail ?r0 = None" by (simp add: viewBox_tail_def)
  have t1: "viewBox_tail ?r1 = Some [''1024''] \<and> length [''1024''] \<noteq> 2"
    by (simp add: viewBox_tail_def)
  have t2: "viewBox_tail ?r2 = Some [''1024'', ''1024''] \<and> length [''1024'', ''1024''] = 2"
    by (simp add: viewBox_tail_def)
  have leaf: "\<exists>c \<in> set (childNodes ?r2). oneLevelPathNode c"
    by (simp add: oneLevelPathNode_def)
  have msg: "as_message (Some ''close'') = Some [Txt ''close'']"
    by (simp add: as_message_def)
  have size: "size_message (map parseInt [''1024'']) (Some ''close'') =
       [Txt ''The size tuple should be [ width, height ], but got [ '', Numeric (Num 1024),
        Txt '', '', Undefined, Txt '' ] ['', Txt ''close'', Txt '']'']"
    by (simp add: size_message_def parseInt_def StrWhiteSpaceChar_def isDigit_def
          digitsValue_def index_def interpolate_def interpolate_num_def)
  have norm: "normalizeNode ?r2 (Some ''close'') =
       Inr (AbstractNode ''svg'' [(''viewBox'', ''0 0 1024 1024'')] [AbstractNode ''path'' [] []])"
    by (simp add: no_tag_def defineProperty_def)
  note T0 = viewBox_size_assertion [OF svg(1), of "Some ''close''"]
  note T1 = viewBox_size_assertion [OF svg(2), of "Some ''close''"]
  note T2 = viewBox_size_assertion [OF svg(3), of "Some ''close''"]
  from mp [OF T0 [THEN conjunct1] t0] msg
  have a: "generateAbstractTree (Some ?r0) (Some ''close'') =
             Inl (AssertionError (Some [Txt ''close'']))"
    by simp
  from mp [OF spec [OF T1 [THEN conjunct2, THEN conjunct1]] t1] size
  have b: "generateAbstractTree (Some ?r1) (Some ''close'') =
     Inl (AssertionError (Some
       [Txt ''The size tuple should be [ width, height ], but got [ '', Numeric (Num 1024),
        Txt '', '', Undefined, Txt '' ] ['', Txt ''close'', Txt '']'']))"
    by simp
  from mp [OF spec [OF T2 [THEN conjunct2, THEN conjunct2]] t2] leaf norm
  have c: "generateAbstractTree (Some ?r2) (Some ''close'') =
     Inr (AbstractNode ''svg'' [(''viewBox'', ''0 0 1024 1024'')] [AbstractNode ''path'' [] []])"
    by simp
  from a b c show ?thesis by (intro conjI)
qed

text \<open>A tail of two tokens that are no numbers: both parse to \<open>NaN\<close>, and the tree
  is returned.\<close>

theorem viewBox_non_numeric_tail_accepted:
  "viewBox_tail
     (Node ''svg'' (Some ''svg'') [\<lparr>name = ''viewBox'', value = ''0 0 a b''\<rparr>]
        [Node ''path'' (Some ''path'') [] []]) = Some [''a'', ''b''] \<and>
   parseInt ''a'' = NaN \<and> parseInt ''b'' = NaN \<and>
   generateAbstractTree
     (Some (Node ''svg'' (Some ''svg'') [\<lparr>name = ''viewBox'', value = ''0 0 a b''\<rparr>]
        [Node ''path'' (Some ''path'') [] []]))
     (Some ''close'') =
     Inr (AbstractNode ''svg'' [(''viewBox'', ''0 0 a b'')] [AbstractNode ''path'' [] []])"
  by (simp add: viewBox_tail_def generateAbstractTree_def parseInt_def StrWhiteSpaceChar_def
        isDigit_def oneLevelPathNode_def no_tag_def defineProperty_def)

subsection \<open>The one-level path assertion\<close>

text \<open>For an element the parser sets \<open>nodeName\<close> and \<open>tagName\<close> to the same string;
  on such a child the filter reads the tag name.\<close>

lemma oneLevelPathNode_element:
  "tagName c = Some (nodeName c) \<Longrightarrow>
     oneLevelPathNode c = (tagName c \<noteq> Some ''style'' \<and> childNodes c = [])"
  by (auto simp: oneLevelPathNode_def)

text \<open>
  C4. A drawable leaf is a direct child whose name, which the filter reads as the
  child's \<open>nodeName\<close> (the tag name of an element), is not \<open>style\<close> and that has no
  children of its own. A root without any drawable leaf among its direct children makes
  \<open>generateAbstractTree\<close> fail with an \<open>AssertionError\<close>. On a root that has got
  through the assertions before this one, the failure carries the debug label, and with
  at least one drawable leaf the check passes: the result is that of \<open>normalizeNode\<close>.
\<close>

theorem drawable_leaf_assertion:
  "(\<not> (\<exists>c \<in> set (childNodes root). nodeName c \<noteq> ''style'' \<and> childNodes c = []) \<longrightarrow>
      (\<exists>m. generateAbstractTree (Some root) d = Inl (AssertionError m))) \<and>
   (tagName root = Some ''svg'' \<and> (\<exists>tail. viewBox_tail root = Some tail \<and> length tail = 2) \<longrightarrow>
      generateAbstractTree (Some root) d =
        (if \<exists>c \<in> set (childNodes root). nodeName c \<noteq> ''style'' \<and> childNodes c = []
         then normalizeNode root d
         else Inl (AssertionError (as_message d))))"
proof (intro conjI impI)
  assume none: "\<not> (\<exists>c \<in> set (childNodes root). nodeName c \<noteq> ''style'' \<and> childNodes c = [])"
  then have nl: "\<not> (\<exists>c \<in> set (childNodes root). oneLevelPathNode c)"
    by (simp add: oneLevelPathNode_def)
  show "\<exists>m. generateAbstractTree (Some root) d = Inl (AssertionError m)"
  proof (cases "tagName root = Some ''svg''")
    case False
    then show ?thesis by (simp add: generateAbstractTree_def)
  next
    case True
    from generateAbstractTree_svg [OF True, of d] nl show ?thesis
      by (cases "viewBox_tail root") auto
  qed
next
  assume "tagName root = Some ''svg'' \<and> (\<exists>tail. viewBox_tail root = Some tail \<and> length tail = 2)"
  then show "generateAbstractTree (Some root) d =
        (if \<exists>c \<in> set (childNodes root). nodeName c \<noteq> ''style'' \<and> childNodes c = []
         then normalizeNode root d
         else Inl (AssertionError (as_message d)))"
    by (auto simp: generateAbstractTree_svg oneLevelPathNode_def)
qed

text \<open>A root whose children are a \<open>style\<close> element and a group with a path inside has
  no drawable leaf; with a path as a direct child it has one.\<close>

theorem drawable_leaf_assertion_witness:
  "generateAbstractTree
     (Some (Node ''svg'' (Some ''svg'') [\<lparr>name = ''viewBox'', value = ''0 0 1024 1024''\<rparr>]
        [Node ''style'' (Some ''style'') [] [],
         Node ''g'' (Some ''g'') [] [Node ''path'' (Some ''path'') [] []]]))
     (Some ''close'') = Inl (AssertionError (Some [Txt ''close''])) \<and>
   generateAbstractTree
     (Some (Node ''svg'' (Some ''svg'') [\<lparr>name = ''viewBox'', value = ''0 0 1024 1024''\<rparr>]
        [Node ''style'' (Some ''style'') [] [], Node ''path'' (Some ''path'') [] []]))
     (Some ''close'') =
   normalizeNode
     (Node ''svg'' (Some ''svg'') [\<lparr>name = ''viewBox'', value = ''0 0 1024 1024''\<rparr>]
        [Node ''style'' (Some ''style'') [] [], Node ''path'' (Some ''path'') [] []])
     (Some ''close'')"
proof -
  let ?r0 = "Node ''svg'' (Some ''svg'') [\<lparr>name = ''viewBox'', value = ''0 0 1024 1024''\<rparr>]
        [Node ''style'' (Some ''style'') [] [],
         Node ''g'' (Some ''g'') [] [Node ''path'' (Some ''path'') [] []]]"
  let ?r1 = "Node ''svg'' (Some ''svg'') [\<lparr>name = ''viewBox'', value = ''0 0 1024 1024''\<rparr>]
        [Node ''style'' (Some ''style'') [] [], Node ''path'' (Some ''path'') [] []]"
  have h0: "tagName ?r0 = Some ''svg'' \<and> (\<exists>tail. viewBox_tail ?r0 = Some tail \<and> length tail = 2)"
    by (simp add: viewBox_tail_def)
  have h1: "tagName ?r1 = Some ''svg'' \<and> (\<exists>tail. viewBox_tail ?r1 = Some tail \<and> length tail = 2)"
    by (simp add: viewBox_tail_def)
  have none: "\<not> (\<exists>c \<in> set (childNodes ?r0). nodeName c \<noteq> ''style'' \<and> childNodes c = [])"
    by simp
  have some: "\<exists>c \<in> set (childNodes ?r1). nodeName c \<noteq> ''style'' \<and> childNodes c = []"
    by simp
  have msg: "as_message (Some ''close'') = Some [Txt ''close'']"
    by (simp add: as_message_def)
  note T0 = drawable_leaf_assertion [of ?r0 "Some ''close''"]
  note T1 = drawable_leaf_assertion [of ?r1 "Some ''close''"]
  from mp [OF T0 [THEN conjunct1] none]
  have "\<exists>m. generateAbstractTree (Some ?r0) (Some ''close'') = Inl (AssertionError m)" .
  from mp [OF T0 [THEN conjunct2] h0] none msg
  have a: "generateAbstractTree (Some ?r0) (Some ''close'') =
             Inl (AssertionError (Some [Txt ''close'']))"
    by simp
  from mp [OF T1 [THEN conjunct2] h1] some
  have b: "generateAbstractTree (Some ?r1) (Some ''close'') = normalizeNode ?r1 (Some ''close'')"
    by simp
  from a b show ?thesis by (intro conjI)
qed

subsection \<open>The tree of a valid root\<close>

text \<open>
  C3. Let the root pass every validation: its \<open>tagName\<close> is \<open>svg\<close>, the tail of its
  \<open>viewBox\<close> has exactly two tokens and both parse as integers, at least one direct
  child is a drawable leaf, and every node of the tree has a tag name that is not empty
  and attributes with pairwise different names. Then \<open>generateAbstractTree\<close> returns a
  tree: its tag is the root's tag name, its children are as many as the root's child
  nodes and the i-th child is the tree of the i-th child node, and its \<open>attrs\<close> holds
  exactly one entry per source attribute, under the attribute's name and with its value.
\<close>

theorem valid_root_tree:
  assumes "tagName root = Some ''svg''"
    and "viewBox_tail root = Some [w, h]" and "parseInt w \<noteq> NaN" and "parseInt h \<noteq> NaN"
    and "\<exists>c \<in> set (childNodes root). nodeName c \<noteq> ''style'' \<and> childNodes c = []"
    and "\<forall>m \<in> set (subtree root). \<not> no_tag (tagName m) \<and> distinct (map name (Node.attrs m))"
  shows "\<exists>t. generateAbstractTree (Some root) d = Inr t \<and>
      tagName root = Some (tag t) \<and>
      length (children t) = length (childNodes root) \<and>
      (\<forall>i < length (childNodes root). normalizeNode (childNodes root ! i) d = Inr (children t ! i)) \<and>
      AbstractNode.attrs t = entries (Node.attrs root) \<and>
      length (AbstractNode.attrs t) = length (Node.attrs root) \<and>
      distinct (map fst (AbstractNode.attrs t)) \<and>
      (\<forall>a \<in> set (Node.attrs root). map_of (AbstractNode.attrs t) (name a) = Some (value a))"
proof -
  from assms(6) have "\<forall>m \<in> set (subtree root). passes m"
    by (simp add: passes_def distinct_not_conflicting)
  with normalize_passes(1) [of root d] obtain t where t: "normalizeNode root d = Inr t"
    by auto
  from assms(5) have "\<exists>c \<in> set (childNodes root). oneLevelPathNode c"
    by (simp add: oneLevelPathNode_def)
  with assms(1,2) t have g: "generateAbstractTree (Some root) d = Inr t"
    by (simp add: generateAbstractTree_svg)
  have "root \<in> set (subtree root)" by (cases root) simp
  with assms(6) have dist: "distinct (map name (Node.attrs root))" by simp
  then have "reduce_attrs [] (Node.attrs root) = Inr ([] @ entries (Node.attrs root))"
    by (intro reduce_attrs_distinct) simp_all
  with normalizeNode_root(3) [OF t]
  have attrs: "AbstractNode.attrs t = entries (Node.attrs root)" by simp
  have keys: "map fst (entries (Node.attrs root)) = map name (Node.attrs root)"
    by (simp add: entries_def comp_def)
  have look: "\<forall>a \<in> set (Node.attrs root).
      map_of (entries (Node.attrs root)) (name a) = Some (value a)"
  proof
    fix a assume "a \<in> set (Node.attrs root)"
    then have "(name a, value a) \<in> set (entries (Node.attrs root))"
      by (auto simp: entries_def)
    with dist keys show "map_of (entries (Node.attrs root)) (name a) = Some (value a)"
      by (intro map_of_is_SomeI) simp_all
  qed
  from normalizeNodes_nth [OF normalizeNode_root(4) [OF t]]
  have kids: "length (children t) = length (childNodes root) \<and>
      (\<forall>i < length (childNodes root). normalizeNode (childNodes root ! i) d = Inr (children t ! i))" .
  have len: "length (entries (Node.attrs root)) = length (Node.attrs root)"
    by (simp add: entries_def)
  from g normalizeNode_root(1) [OF t] kids attrs len dist keys look show ?thesis
    by auto
qed

theorem valid_root_tree_witness:
  "\<exists>t. generateAbstractTree
     (Some (Node ''svg'' (Some ''svg'')
        [\<lparr>name = ''viewBox'', value = ''0 0 1024 1024''\<rparr>, \<lparr>name = ''focusable'', value = ''false''\<rparr>]
        [Node ''style'' (Some ''style'') [] [],
         Node ''path'' (Some ''path'') [\<lparr>name = ''d'', value = ''M0 0''\<rparr>] []]))
     (Some ''close'') = Inr t \<and>
     tag t = ''svg'' \<and> length (children t) = 2 \<and>
     AbstractNode.attrs t = [(''viewBox'', ''0 0 1024 1024''), (''focusable'', ''false'')] \<and>
     normalizeNode (Node ''style'' (Some ''style'') [] []) (Some ''close'') = Inr (children t ! 0) \<and>
     normalizeNode (Node ''path'' (Some ''path'') [\<lparr>name = ''d'', value = ''M0 0''\<rparr>] [])
       (Some ''close'') = Inr (children t ! 1)"
proof -
  let ?style = "Node ''style'' (Some ''style'') [] []"
  let ?path = "Node ''path'' (Some ''path'') [\<lparr>name = ''d'', value = ''M0 0''\<rparr>] []"
  let ?root = "Node ''svg'' (Some ''svg'')
        [\<lparr>name = ''viewBox'', value = ''0 0 1024 1024''\<rparr>, \<lparr>name = ''focusable'', value = ''false''\<rparr>]
        [?style, ?path]"
  have svg: "tagName ?root = Some ''svg''" by simp
  have tail: "viewBox_tail ?root = Some [''1024'', ''1024'']" by (simp add: viewBox_tail_def)
  have num: "parseInt ''1024'' \<noteq> NaN"
    by (simp add: parseInt_def StrWhiteSpaceChar_def isDigit_def)
  have leaf: "\<exists>c \<in> set (childNodes ?root). nodeName c \<noteq> ''style'' \<and> childNodes c = []"
    by simp
  have nodes: "\<forall>m \<in> set (subtree ?root). \<not> no_tag (tagName m) \<and> distinct (map name (Node.attrs m))"
    by (simp add: no_tag_def)
  from valid_root_tree [OF svg tail num num leaf nodes, of "Some ''close''"]
  obtain t where t: "generateAbstractTree (Some ?root) (Some ''close'') = Inr t"
    "tagName ?root = Some (tag t)" "length (children t) = length (childNodes ?root)"
    "\<forall>i < length (childNodes ?root). normalizeNode (childNodes ?root ! i) (Some ''close'') = Inr (children t ! i)"
    "AbstractNode.attrs t = entries (Node.attrs ?root)"
    by blast
  from t(4) [rule_format, of 0] t(4) [rule_format, of 1]
  have "normalizeNode ?style (Some ''close'') = Inr (children t ! 0)"
    and "normalizeNode ?path (Some ''close'') = Inr (children t ! 1)"
    by (simp_all del: normalizeNode.simps)
  with t(1,2,3,5) show ?thesis by (simp add: entries_def del: normalizeNode.simps)
qed

subsection \<open>Tag names\<close>

text \<open>
  C7. \<open>normalizeNode\<close> throws the \<open>TypeError\<close> that carries the debug label when the node
  it is applied to has no tag name or an empty one, and likewise when a descendant has:
  if every node visited before that descendant got through its own steps, the descent
  reaches it and the error is this one; in any case no tree is returned. Hence every
  abstract node of a tree returned by \<open>normalizeNode\<close> or by \<open>generateAbstractTree\<close>, at
  any depth, has a tag that is not empty.
\<close>

theorem no_tag_is_fatal:
  "(no_tag (tagName n) \<longrightarrow> normalizeNode n d = Inl (no_tag_error d)) \<and>
   (\<forall>before b after.
      subtree n = before @ b # after \<and> (\<forall>m \<in> set before. passes m) \<and> no_tag (tagName b) \<longrightarrow>
      normalizeNode n d = Inl (no_tag_error d)) \<and>
   ((\<exists>b \<in> set (subtree n). no_tag (tagName b)) \<longrightarrow>
      isl (normalizeNode n d) \<and> isl (generateAbstractTree (Some n) d)) \<and>
   (\<forall>t. normalizeNode n d = Inr t \<longrightarrow> (\<forall>a \<in> set (abstract_nodes t). tag a \<noteq> [])) \<and>
   (\<forall>t. generateAbstractTree node d = Inr t \<longrightarrow> (\<forall>a \<in> set (abstract_nodes t). tag a \<noteq> []))"
proof (intro conjI)
  show "no_tag (tagName n) \<longrightarrow> normalizeNode n d = Inl (no_tag_error d)"
    by (simp add: normalizeNode_unfold)
  show "\<forall>before b after.
      subtree n = before @ b # after \<and> (\<forall>m \<in> set before. passes m) \<and> no_tag (tagName b) \<longrightarrow>
      normalizeNode n d = Inl (no_tag_error d)"
    by (rule normalize_reached_no_tag(1))
  show "(\<exists>b \<in> set (subtree n). no_tag (tagName b)) \<longrightarrow>
      isl (normalizeNode n d) \<and> isl (generateAbstractTree (Some n) d)"
  proof
    assume bad: "\<exists>b \<in> set (subtree n). no_tag (tagName b)"
    have 1: "isl (normalizeNode n d)"
    proof (rule ccontr)
      assume "\<not> isl (normalizeNode n d)"
      then obtain t where "normalizeNode n d = Inr t" by (cases "normalizeNode n d") auto
      with normalize_Inr(1) [of n d] have "\<forall>m \<in> set (subtree n). passes m" by simp
      with bad show False by (auto simp: passes_def)
    qed
    have 2: "isl (generateAbstractTree (Some n) d)"
    proof (rule ccontr)
      assume "\<not> isl (generateAbstractTree (Some n) d)"
      then obtain t where "generateAbstractTree (Some n) d = Inr t"
        by (cases "generateAbstractTree (Some n) d") auto
      from generateAbstractTree_Inr [OF this] 1 show False by auto
    qed
    from 1 2 show "isl (normalizeNode n d) \<and> isl (generateAbstractTree (Some n) d)" ..
  qed
  show "\<forall>t. normalizeNode n d = Inr t \<longrightarrow> (\<forall>a \<in> set (abstract_nodes t). tag a \<noteq> [])"
    using normalize_Inr(1) [of n d] by simp
  show "\<forall>t. generateAbstractTree node d = Inr t \<longrightarrow> (\<forall>a \<in> set (abstract_nodes t). tag a \<noteq> [])"
  proof (intro allI impI)
    fix t assume "generateAbstractTree node d = Inr t"
    from generateAbstractTree_Inr [OF this] obtain m where "normalizeNode m d = Inr t" by auto
    with normalize_Inr(1) [of m d] show "\<forall>a \<in> set (abstract_nodes t). tag a \<noteq> []" by simp
  qed
qed

text \<open>A path, then a group whose second child is a comment node without a tag name:
  the descent reaches the comment and the error carries the label. Without the comment
  the tree is returned and its three tags are not empty.\<close>

theorem no_tag_is_fatal_witness:
  "normalizeNode
     (Node ''svg'' (Some ''svg'') []
        [Node ''path'' (Some ''path'') [] [],
         Node ''g'' (Some ''g'') [] [Node ''path'' (Some ''path'') [] [], Node ''#comment'' None [] []]])
     (Some ''close'') =
     Inl (TypeError [Txt ''close'', Txt '' Element should have no no-tag node'']) \<and>
   normalizeNode (Node ''#comment'' (Some '''') [] []) None =
     Inl (TypeError [Undefined, Txt '' Element should have no no-tag node'']) \<and>
   normalizeNode
     (Node ''svg'' (Some ''svg'') [] [Node ''g'' (Some ''g'') [] [Node ''path'' (Some ''path'') [] []]])
     (Some ''close'') =
     Inr (AbstractNode ''svg'' [] [AbstractNode ''g'' [] [AbstractNode ''path'' [] []]]) \<and>
   list_all (\<lambda>a. tag a \<noteq> [])
     (abstract_nodes (AbstractNode ''svg'' [] [AbstractNode ''g'' [] [AbstractNode ''path'' [] []]]))"
proof -
  let ?path = "Node ''path'' (Some ''path'') [] []"
  let ?c = "Node ''#comment'' None [] []"
  let ?g = "Node ''g'' (Some ''g'') [] [?path, ?c]"
  let ?n = "Node ''svg'' (Some ''svg'') [] [?path, ?g]"
  let ?e = "Node ''#comment'' (Some '''') [] []"
  let ?ok = "Node ''svg'' (Some ''svg'') [] [Node ''g'' (Some ''g'') [] [?path]]"
  let ?t = "AbstractNode ''svg'' [] [AbstractNode ''g'' [] [AbstractNode ''path'' [] []]]"
  have reach: "subtree ?n = [?n, ?path, ?g, ?path] @ ?c # [] \<and>
      (\<forall>m \<in> set [?n, ?path, ?g, ?path]. passes m) \<and> no_tag (tagName ?c)"
    by (simp add: passes_def no_tag_def conflicting_def)
  have empty: "no_tag (tagName ?e)" by (simp add: no_tag_def)
  have ok: "normalizeNode ?ok (Some ''close'') = Inr ?t" by (simp add: no_tag_def)
  have err: "no_tag_error (Some ''close'') =
      TypeError [Txt ''close'', Txt '' Element should have no no-tag node'']"
    "no_tag_error None = TypeError [Undefined, Txt '' Element should have no no-tag node'']"
    by (simp_all add: no_tag_error_def interpolate_def)
  note T = no_tag_is_fatal [of ?n "Some ''close''"]
  note E = no_tag_is_fatal [of ?e None]
  note K = no_tag_is_fatal [of ?ok "Some ''close''"]
  from T [THEN conjunct2, THEN conjunct1, rule_format, OF reach] err(1)
  have a: "normalizeNode ?n (Some ''close'') =
     Inl (TypeError [Txt ''close'', Txt '' Element should have no no-tag node''])"
    by simp
  from mp [OF E [THEN conjunct1] empty] err(2)
  have b: "normalizeNode ?e None =
     Inl (TypeError [Undefined, Txt '' Element should have no no-tag node''])"
    by simp
  from K [THEN conjunct2, THEN conjunct2, THEN conjunct2, THEN conjunct1, rule_format, OF ok]
  have "\<forall>a \<in> set (abstract_nodes ?t). tag a \<noteq> []" by blast
  then have c: "list_all (\<lambda>a. tag a \<noteq> []) (abstract_nodes ?t)"
    by (simp only: list_all_iff)
  from a b ok c show ?thesis by (intro conjI)
qed

subsection \<open>Attribute names\<close>

text \<open>
  C9, as the code has it. On a node with a tag name, two attributes that share a name
  and differ in value make \<open>normalizeNode\<close> throw the \<open>TypeError\<close> of a redefined
  property; there is no last-write-wins. Two attributes with the same name and the same
  value do not throw: the second definition changes nothing, and the object keeps one
  entry under each name with the source's value. When the names of a node's attributes
  are pairwise different, the reduction cannot throw and the object has exactly one
  entry per attribute; when that holds for every node of a tree, the only error
  \<open>normalizeNode\<close> can raise on it is the one for a missing tag name.
\<close>

theorem attribute_redefinition:
  "(\<not> no_tag (tagName n) \<and> conflicting (Node.attrs n) \<longrightarrow>
      (\<exists>a \<in> set (Node.attrs n). normalizeNode n d = Inl (redefinition (name a)))) \<and>
   (\<not> conflicting (Node.attrs n) \<longrightarrow>
      (\<exists>acc. reduce_attrs [] (Node.attrs n) = Inr acc \<and> distinct (map fst acc) \<and>
         fst ` set acc = name ` set (Node.attrs n) \<and>
         (\<forall>a \<in> set (Node.attrs n). map_of acc (name a) = Some (value a)))) \<and>
   (distinct (map name (Node.attrs n)) \<longrightarrow>
      reduce_attrs [] (Node.attrs n) = Inr (entries (Node.attrs n)) \<and>
      (\<forall>t. normalizeNode n d = Inr t \<longrightarrow> AbstractNode.attrs t = entries (Node.attrs n))) \<and>
   ((\<forall>m \<in> set (subtree n). distinct (map name (Node.attrs m))) \<longrightarrow>
      (\<forall>e. normalizeNode n d = Inl e \<longrightarrow> e = no_tag_error d))"
proof (intro conjI impI)
  assume h: "\<not> no_tag (tagName n) \<and> conflicting (Node.attrs n)"
  with reduce_attrs_conflicting [of "Node.attrs n"]
  obtain a where "a \<in> set (Node.attrs n)"
    and "reduce_attrs [] (Node.attrs n) = Inl (redefinition (name a))"
    by auto
  with h show "\<exists>a \<in> set (Node.attrs n). normalizeNode n d = Inl (redefinition (name a))"
    by (auto simp: normalizeNode_unfold)
next
  assume "\<not> conflicting (Node.attrs n)"
  from reduce_attrs_consistent [OF this, of "[]"]
  obtain acc where acc: "reduce_attrs [] (Node.attrs n) = Inr acc" by auto
  from reduce_attrs_Inr [OF acc] acc
  show "\<exists>acc. reduce_attrs [] (Node.attrs n) = Inr acc \<and> distinct (map fst acc) \<and>
         fst ` set acc = name ` set (Node.attrs n) \<and>
         (\<forall>a \<in> set (Node.attrs n). map_of acc (name a) = Some (value a))"
    by simp
next
  assume dist: "distinct (map name (Node.attrs n))"
  then have "reduce_attrs [] (Node.attrs n) = Inr ([] @ entries (Node.attrs n))"
    by (intro reduce_attrs_distinct) simp_all
  then show r: "reduce_attrs [] (Node.attrs n) = Inr (entries (Node.attrs n))" by simp
  show "\<forall>t. normalizeNode n d = Inr t \<longrightarrow> AbstractNode.attrs t = entries (Node.attrs n)"
  proof (intro allI impI)
    fix t assume "normalizeNode n d = Inr t"
    from normalizeNode_root(3) [OF this] r
    show "AbstractNode.attrs t = entries (Node.attrs n)" by simp
  qed
next
  assume all: "\<forall>m \<in> set (subtree n). distinct (map name (Node.attrs m))"
  show "\<forall>e. normalizeNode n d = Inl e \<longrightarrow> e = no_tag_error d"
  proof (intro allI impI)
    fix e assume "normalizeNode n d = Inl e"
    with normalize_Inl(1) [of n d]
    have "e = no_tag_error d \<or>
      (\<exists>m \<in> set (subtree n). conflicting (Node.attrs m) \<and>
        (\<exists>a \<in> set (Node.attrs m). e = redefinition (name a)))"
      by simp
    with all distinct_not_conflicting show "e = no_tag_error d" by blast
  qed
qed

text \<open>A path with two different \<open>d\<close> attributes, and one with two different
  attributes.\<close>

theorem attribute_redefinition_witness:
  "normalizeNode
     (Node ''path'' (Some ''path'')
        [\<lparr>name = ''d'', value = ''M0 0''\<rparr>, \<lparr>name = ''d'', value = ''M1 1''\<rparr>] [])
     (Some ''close'') = Inl (TypeError [Txt ''Cannot redefine property: '', Txt ''d'']) \<and>
   reduce_attrs [] [\<lparr>name = ''d'', value = ''M0 0''\<rparr>, \<lparr>name = ''fill'', value = ''#333''\<rparr>] =
     Inr [(''d'', ''M0 0''), (''fill'', ''#333'')] \<and>
   normalizeNode
     (Node ''g'' (Some ''g'') [\<lparr>name = ''d'', value = ''M0 0''\<rparr>, \<lparr>name = ''fill'', value = ''#333''\<rparr>]
        [Node ''#text'' None [] []])
     (Some ''close'') = Inl (TypeError [Txt ''close'', Txt '' Element should have no no-tag node''])"
proof -
  let ?dup = "Node ''path'' (Some ''path'')
        [\<lparr>name = ''d'', value = ''M0 0''\<rparr>, \<lparr>name = ''d'', value = ''M1 1''\<rparr>] []"
  let ?ats = "[\<lparr>name = ''d'', value = ''M0 0''\<rparr>, \<lparr>name = ''fill'', value = ''#333''\<rparr>]"
  let ?g = "Node ''g'' (Some ''g'') ?ats [Node ''#text'' None [] []]"
  have c: "\<not> no_tag (tagName ?dup) \<and> conflicting (Node.attrs ?dup)"
    by (simp add: no_tag_def conflicting_def)
  have nc: "\<not> conflicting (Node.attrs ?g)" by (simp add: conflicting_def)
  have dist: "distinct (map name (Node.attrs ?g))" by simp
  have all: "\<forall>m \<in> set (subtree ?g). distinct (map name (Node.attrs m))" by simp
  have err: "no_tag_error (Some ''close'') =
      TypeError [Txt ''close'', Txt '' Element should have no no-tag node'']"
    by (simp add: no_tag_error_def interpolate_def)
  note D = attribute_redefinition [of ?dup "Some ''close''"]
  note G = attribute_redefinition [of ?g "Some ''close''"]
  from mp [OF D [THEN conjunct1] c]
  have a: "normalizeNode ?dup (Some ''close'') =
      Inl (TypeError [Txt ''Cannot redefine property: '', Txt ''d''])"
    by (simp add: redefinition_def del: normalizeNode.simps)
  from mp [OF G [THEN conjunct2, THEN conjunct1] nc]
  have "\<exists>acc. reduce_attrs [] (Node.attrs ?g) = Inr acc" by blast
  from mp [OF G [THEN conjunct2, THEN conjunct2, THEN conjunct1] dist]
  have b: "reduce_attrs [] ?ats = Inr [(''d'', ''M0 0''), (''fill'', ''#333'')]"
    by (simp add: entries_def del: reduce_attrs.simps)
  from mp [OF G [THEN conjunct2, THEN conjunct2, THEN conjunct2] all] err
  have only: "\<forall>e. normalizeNode ?g (Some ''close'') = Inl e \<longrightarrow>
        e = TypeError [Txt ''close'', Txt '' Element should have no no-tag node'']"
    by (simp del: normalizeNode.simps)
  have "isl (normalizeNode ?g (Some ''close''))" by (simp add: no_tag_def defineProperty_def)
  then obtain e where e: "normalizeNode ?g (Some ''close'') = Inl e"
    by (cases "normalizeNode ?g (Some ''close'')") (simp_all del: normalizeNode.simps)
  with only have "e = TypeError [Txt ''close'', Txt '' Element should have no no-tag node'']"
    by blast
  with e have f: "normalizeNode ?g (Some ''close'') =
      Inl (TypeError [Txt ''close'', Txt '' Element should have no no-tag node''])"
    by (simp del: normalizeNode.simps)
  from a b f show ?thesis by (intro conjI)
qed

text \<open>Two attributes with the same name and the same value: no error, one entry.\<close>

theorem identical_duplicate_accepted:
  "normalizeNode
     (Node ''path'' (Some ''path'')
        [\<lparr>name = ''d'', value = ''M0 0''\<rparr>, \<lparr>name = ''d'', value = ''M0 0''\<rparr>] [])
     (Some ''close'') = Inr (AbstractNode ''path'' [(''d'', ''M0 0'')] [])"
  by (simp add: no_tag_def defineProperty_def)

subsection \<open>Names for a whole theme\<close>

lemma name_entries_known:
  "theme \<in> {''fill'', ''outline'', ''twotone''} \<Longrightarrow>
     \<exists>kvs. name_entries camelCase upperFirst basicNames theme isKebabCase = Inr kvs \<and>
       map fst kvs = basicNames \<and>
       (\<forall>kv \<in> set kvs.
          (if isKebabCase = Some True then withSuffix (fst kv) theme
           else getIdentifier (upperFirst (camelCase (fst kv))) theme) = Inr (snd kv))"
proof (induction basicNames)
  case Nil
  show ?case by simp
next
  case (Cons b bs)
  from Cons obtain kvs where kvs: "name_entries camelCase upperFirst bs theme isKebabCase = Inr kvs"
    "map fst kvs = bs"
    "\<forall>kv \<in> set kvs.
          (if isKebabCase = Some True then withSuffix (fst kv) theme
           else getIdentifier (upperFirst (camelCase (fst kv))) theme) = Inr (snd kv)"
    by auto
  from Cons.prems have "\<exists>v. withSuffix b theme = Inr v"
    and "\<exists>v. getIdentifier (upperFirst (camelCase b)) theme = Inr v"
    by (auto simp: withSuffix_def getIdentifier_def)
  then obtain v where v:
    "(if isKebabCase = Some True then withSuffix b theme
      else getIdentifier (upperFirst (camelCase b)) theme) = Inr v"
    by (cases "isKebabCase = Some True") auto
  with kvs have "name_entries camelCase upperFirst (b # bs) theme isKebabCase = Inr ((b, v) # kvs)"
    by (simp split: if_splits)
  with kvs v show ?case by auto
qed

lemma assign_all:
  "fst ` set (foldl (\<lambda>acc (key, v). assign acc key v) acc kvs) =
     fst ` set acc \<union> (fst ` set kvs - {''__proto__''}) \<and>
   (distinct (map fst acc) \<longrightarrow>
      distinct (map fst (foldl (\<lambda>acc (key, v). assign acc key v) acc kvs))) \<and>
   ((\<forall>kv \<in> set kvs. snd kv = g (fst kv)) \<longrightarrow>
      (\<forall>k. map_of (foldl (\<lambda>acc (key, v). assign acc key v) acc kvs) k =
         (if k \<in> fst ` set kvs \<and> k \<noteq> ''__proto__'' then Some (g k) else map_of acc k)))"
proof (induction kvs arbitrary: acc)
  case Nil
  show ?case by simp
next
  case (Cons kv kvs)
  obtain key v where kv: "kv = (key, v)" by (cases kv)
  note IH = Cons.IH [of "assign acc key v"]
  have keys: "fst ` set (assign acc key v) = fst ` set acc \<union> ({key} - {''__proto__''})"
    by (auto simp: assign_def dom_update)
  have dist: "distinct (map fst acc) \<longrightarrow> distinct (map fst (assign acc key v))"
    by (simp add: assign_def distinct_update)
  have look: "\<forall>k. map_of (assign acc key v) k =
      (if k = key \<and> k \<noteq> ''__proto__'' then Some v else map_of acc k)"
    by (simp add: assign_def update_conv')
  show ?case
  proof (intro conjI impI)
    show "fst ` set (foldl (\<lambda>acc (key, v). assign acc key v) acc (kv # kvs)) =
       fst ` set acc \<union> (fst ` set (kv # kvs) - {''__proto__''})"
      using IH keys kv by auto
    assume "distinct (map fst acc)"
    with IH dist kv
    show "distinct (map fst (foldl (\<lambda>acc (key, v). assign acc key v) acc (kv # kvs)))"
      by simp
  next
    assume g: "\<forall>kv \<in> set (kv # kvs). snd kv = g (fst kv)"
    with kv have v: "v = g key" and rest: "\<forall>kv \<in> set kvs. snd kv = g (fst kv)" by auto
    with IH look kv
    show "\<forall>k. map_of (foldl (\<lambda>acc (key, v). assign acc key v) acc (kv # kvs)) k =
         (if k \<in> fst ` set (kv # kvs) \<and> k \<noteq> ''__proto__'' then Some (g k) else map_of acc k)"
      by auto
  qed
qed

text \<open>For a theme of the enumeration the object has one entry per distinct base name
  other than \<open>__proto__\<close>, holding the kebab name when the flag is set and otherwise the
  identifier of the base name in Pascal case.\<close>

lemma theseShouldBeWithTheme_entries:
  assumes "theme \<in> {''fill'', ''outline'', ''twotone''}"
  shows "\<exists>m. theseShouldBeWithTheme camelCase upperFirst basicNames theme isKebabCase = Inr m \<and>
      distinct (map fst m) \<and>
      fst ` set m = set basicNames - {''__proto__''} \<and>
      (\<forall>b \<in> set basicNames - {''__proto__''}.
         \<exists>v. map_of m b = Some v \<and>
           (if isKebabCase = Some True then withSuffix b theme
            else getIdentifier (upperFirst (camelCase b)) theme) = Inr v)"
proof -
  let ?f = "\<lambda>b. if isKebabCase = Some True then withSuffix b theme
          else getIdentifier (upperFirst (camelCase b)) theme"
  from name_entries_known [OF assms, of camelCase upperFirst basicNames isKebabCase]
  obtain kvs where kvs: "name_entries camelCase upperFirst basicNames theme isKebabCase = Inr kvs"
    "map fst kvs = basicNames" "\<forall>kv \<in> set kvs. ?f (fst kv) = Inr (snd kv)"
    by auto
  let ?m = "foldl (\<lambda>acc (key, v). assign acc key v) [] kvs"
  from kvs(1) have m: "theseShouldBeWithTheme camelCase upperFirst basicNames theme isKebabCase = Inr ?m"
    by (simp add: theseShouldBeWithTheme_def)
  from kvs(2) have keys: "fst ` set kvs = set basicNames" by (metis set_map)
  from kvs(3) have g: "\<forall>kv \<in> set kvs. snd kv = projr (?f (fst kv))" by simp
  note A = assign_all [of "[]" kvs "\<lambda>b. projr (?f b)"]
  from A keys have 1: "fst ` set ?m = set basicNames - {''__proto__''}" by simp
  from A have 2: "distinct (map fst ?m)" by simp
  from A g have look: "\<forall>k. map_of ?m k =
      (if k \<in> fst ` set kvs \<and> k \<noteq> ''__proto__'' then Some (projr (?f k)) else None)"
    by simp
  have 3: "\<forall>b \<in> set basicNames - {''__proto__''}.
      \<exists>v. map_of ?m b = Some v \<and> ?f b = Inr v"
  proof
    fix b assume b: "b \<in> set basicNames - {''__proto__''}"
    then have "b \<in> fst ` set kvs" using keys by simp
    then obtain kv where "kv \<in> set kvs" "fst kv = b" by (auto simp: image_iff)
    with kvs(3) have "?f b = Inr (snd kv)" by auto
    then have "?f b = Inr (projr (?f b))" by simp
    moreover from look b keys have "map_of ?m b = Some (projr (?f b))" by simp
    ultimately show "\<exists>v. map_of ?m b = Some v \<and> ?f b = Inr v" by simp
  qed
  from m 1 2 3 show ?thesis by blast
qed

text \<open>
  C6. The claim is that the object has exactly one entry per distinct base name. For the
  base name \<open>__proto__\<close> the assignment creates no property, so two distinct base names
  can leave a single entry, in the kebab form and in the identifier form alike.
\<close>

theorem theseShouldBeWithTheme_loses_proto:
  "theseShouldBeWithTheme camelCase upperFirst [''close'', ''__proto__''] ''fill'' (Some True) =
     Inr [(''close'', ''close-fill'')] \<and>
   theseShouldBeWithTheme camelCase upperFirst [''__proto__''] ''outline'' None = Inr []"
  by (simp add: theseShouldBeWithTheme_def withSuffix_def getIdentifier_def assign_def)

end
